theory Spec2Isabelle
  imports Main "HOL-Library.Word"
begin

section \<open>Python strings used by the script\<close>

text \<open>
  The script \<^verbatim>\<open>app.py\<close> is a Streamlit page: every user interaction runs the file from
  its first line to its last, against the per-browser \<^verbatim>\<open>st.session_state\<close> and the
  database behind \<^verbatim>\<open>utils.dbutils\<close>. The strings of usernames, chat_ids and
  messages are byte lists; the emoji of the messages are written as their UTF-8 bytes.
\<close>

text \<open>
  The value of an environment variable is a Python \<^verbatim>\<open>str\<close>, a sequence of code points.
  \<^verbatim>\<open>str.strip()\<close> removes the characters for which \<^verbatim>\<open>str.isspace()\<close> holds from
  both ends. \<^verbatim>\<open>str.upper()\<close> is modelled on the ASCII letters: no character outside
  ASCII has an upper case that consists of the letters O and N, so leaving it as it is
  does not change a comparison with \<^verbatim>\<open>"ON"\<close>.
\<close>

type_synonym py_str = "int list"

definition is_space :: "int \<Rightarrow> bool" where
  "is_space c =
     ((9 \<le> c \<and> c \<le> 13) \<or> (28 \<le> c \<and> c \<le> 32) \<or> c = 133 \<or> c = 160 \<or> c = 5760
      \<or> (8192 \<le> c \<and> c \<le> 8202) \<or> c = 8232 \<or> c = 8233 \<or> c = 8239 \<or> c = 8287
      \<or> c = 12288)"

definition strip :: "py_str \<Rightarrow> py_str" where
  "strip s = rev (dropWhile is_space (rev (dropWhile is_space s)))"

definition upper_char :: "int \<Rightarrow> int" where
  "upper_char c = (if 97 \<le> c \<and> c \<le> 122 then c - 32 else c)"

definition upper :: "py_str \<Rightarrow> py_str" where
  "upper s = map upper_char s"

text \<open>\<^verbatim>\<open>uuid.uuid4().hex\<close>: the 128-bit value as 32 lower-case hexadecimal digits.\<close>

definition hex_digit :: "nat \<Rightarrow> char" where
  "hex_digit d = ''0123456789abcdef'' ! (d mod 16)"

fun hex_digits :: "nat \<Rightarrow> nat \<Rightarrow> string" where
  "hex_digits 0 v = []"
| "hex_digits (Suc n) v = hex_digits n (v div 16) @ [hex_digit v]"

definition uuid4_hex :: "128 word \<Rightarrow> string" where
  "uuid4_hex w = hex_digits 32 (unat w)"

text \<open>The f-string \<^verbatim>\<open>f"{username}_{uuid.uuid4().hex[:8]}"\<close> of lines 72, 116, 139 and 151.\<close>

definition fresh_chat_id :: "string \<Rightarrow> 128 word \<Rightarrow> string" where
  "fresh_chat_id u w = u @ ''_'' @ take 8 (uuid4_hex w)"

definition wave :: string where
  "wave = [char_of (240 :: nat), char_of (159 :: nat), char_of (145 :: nat), char_of (139 :: nat)]"

definition no_entry :: string where
  "no_entry = [char_of (240 :: nat), char_of (159 :: nat), char_of (154 :: nat), char_of (171 :: nat)]"

definition plus_sign :: string where
  "plus_sign = [char_of (226 :: nat), char_of (158 :: nat), char_of (149 :: nat)]"

definition unavailable_message :: string where
  "unavailable_message = no_entry @ '' The app is currently down. Please try again later.''"

definition greeting_auto :: "string \<Rightarrow> string" where
  "greeting_auto u =
     wave @ '' Hello! '' @ u @ '', i am your AI assistant. How can I help you today?''"

definition greeting_new :: "string \<Rightarrow> string" where
  "greeting_new u =
     wave @ '' Hello! '' @ u @ '', i am your AIGPT. How can I help you today?''"

section \<open>The stores behind \<^verbatim>\<open>utils.dbutils\<close>\<close>

text \<open>
  \<^verbatim>\<open>utils/dbutils.py\<close> is imported by the script but is not part of the sources at hand.
  Its functions are modelled from the data model and the contracts of the specification
  (sections 3, 4.1 and 4.2); each has the parameters of its call sites in \<^verbatim>\<open>app.py\<close>.
  The store is a value, so the I/O failures of a real database are outside the model.
\<close>

record user =
  uname :: string
  full_name :: string
  email :: string
  password_hash :: string

record chat =
  cid :: string
  owner_username :: string
  display_name :: "string option"
  msgs :: "(string \<times> string) list"

record store =
  users :: "user list"
  chats :: "chat list"

datatype store_result = Success | UsernameTaken | Forbidden | NotFound

text \<open>Modelled from the spec: \<^verbatim>\<open>get_user(username)\<close>, the user with that unique key
  or nothing (\<^verbatim>\<open>get_user_by_username\<close> of dbutils).\<close>

definition get_user_by_username :: "store \<Rightarrow> string \<Rightarrow> user option" where
  "get_user_by_username st u = find (\<lambda>r. uname r = u) (users st)"

text \<open>Modelled from the spec: \<^verbatim>\<open>verify_credentials(username, password)\<close> is false for a
  missing user and for a hash mismatch (\<^verbatim>\<open>verify_user_credentials\<close> of dbutils). The
  hashing primitive \<open>h\<close> is an external collaborator.\<close>

definition verify_user_credentials :: "(string \<Rightarrow> string) \<Rightarrow> store \<Rightarrow> string \<Rightarrow> string \<Rightarrow> bool" where
  "verify_user_credentials h st u p =
     (case get_user_by_username st u of
        None \<Rightarrow> False
      | Some r \<Rightarrow> password_hash r = h p)"

text \<open>Modelled from the spec: \<^verbatim>\<open>create_user\<close> of dbutils inserts one row holding the
  hash of the password, or reports that the username is taken.\<close>

definition create_user ::
  "(string \<Rightarrow> string) \<Rightarrow> store \<Rightarrow> string \<Rightarrow> string \<Rightarrow> string \<Rightarrow> string \<Rightarrow> store_result \<times> store" where
  "create_user h st u fn em p =
     (if get_user_by_username st u \<noteq> None then (UsernameTaken, st)
      else (Success,
            st\<lparr>users := users st @ [\<lparr>uname = u, full_name = fn, email = em, password_hash = h p\<rparr>]\<rparr>))"

definition find_chat :: "store \<Rightarrow> string \<Rightarrow> chat option" where
  "find_chat st c = find (\<lambda>ch. cid ch = c) (chats st)"

text \<open>Modelled from the spec: \<^verbatim>\<open>get_all_chats_for_user(username)\<close>, the pairs
  (chat_id, display_name) of the user's chats, here in creation order
  (\<^verbatim>\<open>get_all_chat_ids_for_user\<close> of dbutils).\<close>

definition get_all_chat_ids_for_user :: "store \<Rightarrow> string \<Rightarrow> (string \<times> string option) list" where
  "get_all_chat_ids_for_user st u =
     map (\<lambda>ch. (cid ch, display_name ch)) (filter (\<lambda>ch. owner_username ch = u) (chats st))"

text \<open>Modelled from the spec: \<^verbatim>\<open>insert_message(username, chat_id, role, content)\<close>
  appends, after checking that the chat belongs to the user (\<open>Forbidden\<close> otherwise).
  The contract has no operation that creates a chat: the first message of an unknown
  chat_id creates the chat for that user.\<close>

definition insert_message ::
  "store \<Rightarrow> string \<Rightarrow> string \<Rightarrow> string \<Rightarrow> string \<Rightarrow> store_result \<times> store" where
  "insert_message st u c r m =
     (case find_chat st c of
        None \<Rightarrow>
          (Success,
           st\<lparr>chats := chats st @
                [\<lparr>cid = c, owner_username = u, display_name = None, msgs = [(r, m)]\<rparr>]\<rparr>)
      | Some ch \<Rightarrow>
          if owner_username ch = u
          then (Success,
                st\<lparr>chats := map (\<lambda>x. if cid x = c then x\<lparr>msgs := msgs x @ [(r, m)]\<rparr> else x)
                                (chats st)\<rparr>)
          else (Forbidden, st))"

definition lastn :: "nat \<Rightarrow> 'a list \<Rightarrow> 'a list" where
  "lastn n xs = drop (length xs - n) xs"

text \<open>Modelled from the spec: \<^verbatim>\<open>get_chat_history(chat_id, n)\<close>, the most recent \<open>n\<close>
  pairs (role, content) of the chat in chronological order; empty for an unknown chat.\<close>

definition get_chat_history :: "store \<Rightarrow> string \<Rightarrow> nat \<Rightarrow> (string \<times> string) list" where
  "get_chat_history st c n =
     (case find_chat st c of None \<Rightarrow> [] | Some ch \<Rightarrow> lastn n (msgs ch))"

text \<open>Modelled from the spec: \<^verbatim>\<open>update_chat_name(chat_id, new_name)\<close>, success or
  \<open>NotFound\<close>.\<close>

definition update_chat_name :: "store \<Rightarrow> string \<Rightarrow> string option \<Rightarrow> store_result \<times> store" where
  "update_chat_name st c nm =
     (if find_chat st c = None then (NotFound, st)
      else (Success,
            st\<lparr>chats := map (\<lambda>x. if cid x = c then x\<lparr>display_name := nm\<rparr> else x) (chats st)\<rparr>))"

text \<open>Modelled from the spec: \<^verbatim>\<open>delete_chat(chat_id)\<close> removes the chat with all its
  messages at once, or reports \<open>NotFound\<close>.\<close>

definition delete_chat :: "store \<Rightarrow> string \<Rightarrow> store_result \<times> store" where
  "delete_chat st c =
     (if find_chat st c = None then (NotFound, st)
      else (Success, st\<lparr>chats := filter (\<lambda>x. cid x \<noteq> c) (chats st)\<rparr>))"

section \<open>Session state, inputs and effects of one script run\<close>

text \<open>
  \<^verbatim>\<open>st.session_state\<close>: \<open>authenticated = None\<close> is the state without the key
  \<^verbatim>\<open>"authenticated"\<close> (a new session, or after \<^verbatim>\<open>clear()\<close>); the keys
  \<^verbatim>\<open>username\<close> and \<^verbatim>\<open>name\<close> are written and removed together with it, and
  \<open>None\<close> is their Python \<^verbatim>\<open>None\<close>. For \<open>chat_id\<close>, \<open>None\<close> is the missing key and
  \<open>Some None\<close> the value \<^verbatim>\<open>None\<close> that the delete handler stores.
\<close>

record session_state =
  authenticated :: "bool option"
  username :: "string option"
  name :: "string option"
  chat_id :: "string option option"

datatype lc_message = HumanMessage string | AIMessage string

text \<open>The keyword arguments of \<^verbatim>\<open>AgentExecutor.from_agent_and_tools\<close> (lines 217 to 227).\<close>

record agent_config =
  verbose :: bool
  handle_parsing_errors :: bool
  max_iterations :: nat
  max_execution_time :: nat
  early_stopping_method :: string

text \<open>
  External collaborators: the password hashing primitive and the reasoning loop of the
  agent library, which answers a question from a configuration and a conversation memory,
  or raises (\<open>None\<close>).
\<close>

record externals =
  hash_password :: "string \<Rightarrow> string"
  reasoning_loop :: "agent_config \<Rightarrow> lc_message list \<Rightarrow> string \<Rightarrow> string option"

text \<open>
  What one run reads from outside: the environment variable \<^verbatim>\<open>APP_STATUS\<close>, the value
  of \<^verbatim>\<open>uuid.uuid4()\<close>, and the widgets. A button is \<open>True\<close> in the run its click
  triggers.
\<close>

record run_input =
  app_status_env :: "py_str option"
  uuid4 :: "128 word"
  username_input :: string
  password_input :: string
  login_btn :: bool
  new_username :: string
  new_name :: string
  new_email :: string
  new_password :: string
  confirm_password :: string
  register_btn :: bool
  radio_choice :: nat
  rename_input :: "string option"
  save_name_btn :: bool
  delete_btn :: bool
  new_chat_btn :: bool
  logout_btn :: bool
  chat_input :: "string option"

datatype py_error = TypeError | StoreContract | AgentError

text \<open>
  How a run ends: at the last line, by \<^verbatim>\<open>st.stop()\<close>, by \<^verbatim>\<open>st.rerun()\<close> (the
  script is started again at once), or by an exception.
\<close>

datatype outcome = Completed | Stopped | Rerun | Raised py_error

text \<open>
  The trace of a run, in program order: the messages shown with \<^verbatim>\<open>st.error\<close>,
  \<^verbatim>\<open>st.warning\<close>, \<^verbatim>\<open>st.success\<close> and \<^verbatim>\<open>st.chat_message\<close>, every call of a
  dbutils function with its arguments, and the invocation of the agent. Titles, captions
  and the sidebar labels are not recorded.
\<close>

datatype effect =
    St_error string
  | St_warning string
  | St_success string
  | St_chat_message string string
  | Call_verify_user_credentials string string
  | Call_get_user_by_username string
  | Call_create_user string string string string
  | Call_get_all_chat_ids_for_user string
  | Call_insert_message string string string string
  | Call_update_chat_name string "string option"
  | Call_delete_chat string
  | Call_get_chat_history string nat
  | Call_agent agent_config "lc_message list" string

type_synonym section_result = "outcome option \<times> session_state \<times> store \<times> effect list"

text \<open>Sequencing: a section that ended the run (\<open>Some\<close>) skips what follows it.\<close>

definition then_run ::
  "section_result \<Rightarrow> (session_state \<Rightarrow> store \<Rightarrow> section_result) \<Rightarrow> section_result" where
  "then_run r g =
     (case r of
        (Some oc, s1, st1, tr1) \<Rightarrow> (Some oc, s1, st1, tr1)
      | (None, s1, st1, tr1) \<Rightarrow>
          (case g s1 st1 of (oc, s2, st2, tr2) \<Rightarrow> (oc, s2, st2, tr1 @ tr2)))"

section \<open>The script\<close>

text \<open>Lines 44 to 47.\<close>

definition init_session :: "session_state \<Rightarrow> session_state" where
  "init_session s =
     (if authenticated s = None
      then s\<lparr>authenticated := Some False, username := None, name := None\<rparr>
      else s)"

text \<open>Lines 35 and 52: \<^verbatim>\<open>os.environ.get("APP_STATUS", "ON").strip().upper() != "ON"\<close>;
  the code points of \<^verbatim>\<open>"ON"\<close> are 79 and 78.\<close>

definition app_down :: "py_str option \<Rightarrow> bool" where
  "app_down v = (upper (strip (case v of None \<Rightarrow> [79, 78] | Some x \<Rightarrow> x)) \<noteq> [79, 78])"

text \<open>
  Lines 59 to 75. When the store verifies the pair but has no such user, line 70 raises
  a \<^verbatim>\<open>TypeError\<close> after line 69 has set \<^verbatim>\<open>authenticated\<close>.
\<close>

definition login_section :: "externals \<Rightarrow> run_input \<Rightarrow> session_state \<Rightarrow> store \<Rightarrow> section_result" where
  "login_section ext i s st =
     (if authenticated s \<noteq> Some True \<and> login_btn i then
        if verify_user_credentials (hash_password ext) st (username_input i) (password_input i)
        then
          (case get_user_by_username st (username_input i) of
             None \<Rightarrow>
               (Some (Raised TypeError), s\<lparr>authenticated := Some True\<rparr>, st,
                [Call_verify_user_credentials (username_input i) (password_input i),
                 Call_get_user_by_username (username_input i)])
           | Some usr \<Rightarrow>
               (Some Rerun,
                s\<lparr>authenticated := Some True,
                  username := Some (uname usr),
                  name := Some (full_name usr),
                  chat_id := Some (Some (fresh_chat_id (uname usr) (uuid4 i)))\<rparr>,
                st,
                [Call_verify_user_credentials (username_input i) (password_input i),
                 Call_get_user_by_username (username_input i)]))
        else
          (None, s, st,
           [Call_verify_user_credentials (username_input i) (password_input i),
            St_error ''Incorrect username or password.''])
      else (None, s, st, []))"

text \<open>Lines 80 to 101.\<close>

definition register_section :: "externals \<Rightarrow> run_input \<Rightarrow> session_state \<Rightarrow> store \<Rightarrow> section_result" where
  "register_section ext i s st =
     (if authenticated s \<noteq> Some True \<and> register_btn i then
        if new_password i \<noteq> confirm_password i then
          (None, s, st, [St_error ''Passwords do not match.''])
        else if get_user_by_username st (new_username i) \<noteq> None then
          (None, s, st,
           [Call_get_user_by_username (new_username i), St_error ''Username already exists.''])
        else
          (case create_user (hash_password ext) st
                  (new_username i) (new_name i) (new_email i) (new_password i) of
             (r, st') \<Rightarrow>
               (None, s, st',
                [Call_get_user_by_username (new_username i),
                 Call_create_user (new_username i) (new_name i) (new_email i) (new_password i),
                 if r = Success then St_success ''User created successfully.''
                 else St_error ''User creation failed.'']))
      else (None, s, st, []))"

text \<open>Lines 114 to 119.\<close>

definition auto_create_chat :: "run_input \<Rightarrow> string \<Rightarrow> session_state \<Rightarrow> store \<Rightarrow> section_result" where
  "auto_create_chat i u s st =
     (let new_id = fresh_chat_id u (uuid4 i) in
      case insert_message st u new_id ''assistant'' (greeting_auto u) of
        (r, st') \<Rightarrow>
          (Some Rerun, s\<lparr>chat_id := Some (Some new_id)\<rparr>, st',
           [St_warning (''No chats found. Click '' @ plus_sign @ '' New Chat to start.''),
            Call_insert_message u new_id ''assistant'' (greeting_auto u)]))"

text \<open>
  Line 121: \<^verbatim>\<open>st.sidebar.radio\<close> returns one of its options, the indices of the chat
  list: the user's choice when it is one of them, the first option otherwise.
\<close>

definition radio :: "nat \<Rightarrow> nat \<Rightarrow> nat" where
  "radio n choice = (if choice < n then choice else 0)"

text \<open>
  Line 125: the text typed into the rename field, or its default
  \<^verbatim>\<open>dict(chat_list).get(selected_chat, "")\<close>, in which the last pair of a chat_id wins.
\<close>

definition rename_text ::
  "run_input \<Rightarrow> (string \<times> string option) list \<Rightarrow> string \<Rightarrow> string option" where
  "rename_text i chat_list selected_chat =
     (case rename_input i of
        Some t \<Rightarrow> Some t
      | None \<Rightarrow> (case map_of (rev chat_list) selected_chat of None \<Rightarrow> Some [] | Some nm \<Rightarrow> nm))"

text \<open>Lines 126 to 129.\<close>

definition save_name ::
  "run_input \<Rightarrow> (string \<times> string option) list \<Rightarrow> string \<Rightarrow> session_state \<Rightarrow> store \<Rightarrow> section_result" where
  "save_name i chat_list selected_chat s st =
     (if save_name_btn i then
        (case update_chat_name st selected_chat (rename_text i chat_list selected_chat) of
           (r, st') \<Rightarrow>
             if r = Success
             then (Some Rerun, s, st',
                   [Call_update_chat_name selected_chat (rename_text i chat_list selected_chat),
                    St_success ''Chat name updated.''])
             else (None, s, st',
                   [Call_update_chat_name selected_chat (rename_text i chat_list selected_chat)]))
      else (None, s, st, []))"

text \<open>Lines 131 to 135.\<close>

definition delete_selected :: "run_input \<Rightarrow> string \<Rightarrow> session_state \<Rightarrow> store \<Rightarrow> section_result" where
  "delete_selected i selected_chat s st =
     (if delete_btn i then
        (case delete_chat st selected_chat of
           (r, st') \<Rightarrow>
             if r = Success
             then (Some Rerun, s\<lparr>chat_id := Some None\<rparr>, st',
                   [Call_delete_chat selected_chat, St_success ''Chat deleted.''])
             else (None, s, st', [Call_delete_chat selected_chat]))
      else (None, s, st, []))"

text \<open>Lines 138 to 142.\<close>

definition new_chat :: "run_input \<Rightarrow> string \<Rightarrow> session_state \<Rightarrow> store \<Rightarrow> section_result" where
  "new_chat i u s st =
     (if new_chat_btn i then
        (let new_id = fresh_chat_id u (uuid4 i) in
         case insert_message st u new_id ''assistant'' (greeting_new u) of
           (r, st') \<Rightarrow>
             (Some Rerun, s\<lparr>chat_id := Some (Some new_id)\<rparr>, st',
              [Call_insert_message u new_id ''assistant'' (greeting_new u)]))
      else (None, s, st, []))"

text \<open>Lines 145 to 147: \<^verbatim>\<open>st.session_state.clear()\<close>.\<close>

definition logout :: "run_input \<Rightarrow> session_state \<Rightarrow> store \<Rightarrow> section_result" where
  "logout i s st =
     (if logout_btn i
      then (Some Rerun, \<lparr>authenticated = None, username = None, name = None, chat_id = None\<rparr>, st, [])
      else (None, s, st, []))"

text \<open>Lines 150 to 154; an empty string is false in Python.\<close>

definition use_selected_chat ::
  "run_input \<Rightarrow> string \<Rightarrow> string \<Rightarrow> session_state \<Rightarrow> store \<Rightarrow> section_result" where
  "use_selected_chat i u selected_chat s st =
     (case chat_id s of
        None \<Rightarrow>
          (None,
           s\<lparr>chat_id := Some (Some (if selected_chat \<noteq> [] then selected_chat
                                     else fresh_chat_id u (uuid4 i)))\<rparr>,
           st, [])
      | Some cur \<Rightarrow>
          if selected_chat \<noteq> [] \<and> Some selected_chat \<noteq> cur
          then (Some Rerun, s\<lparr>chat_id := Some (Some selected_chat)\<rparr>, st, [])
          else (None, s, st, []))"

text \<open>Lines 164 to 166.\<close>

definition get_langchain_messages :: "store \<Rightarrow> string \<Rightarrow> lc_message list" where
  "get_langchain_messages st c =
     map (\<lambda>(r, m). if r = ''user'' then HumanMessage m else AIMessage m) (get_chat_history st c 3)"

text \<open>Lines 217 to 227.\<close>

definition agent_executor :: agent_config where
  "agent_executor =
     \<lparr>verbose = True, handle_parsing_errors = True, max_iterations = 3,
      max_execution_time = 30, early_stopping_method = ''force''\<rparr>"

text \<open>
  Lines 238 to 247, for the input \<open>x\<close> of \<^verbatim>\<open>st.chat_input()\<close>; \<open>memory\<close> is the
  conversation memory built at line 169.
\<close>

definition handle_input ::
  "externals \<Rightarrow> string \<Rightarrow> string \<Rightarrow> lc_message list \<Rightarrow> string \<Rightarrow> session_state \<Rightarrow> store
     \<Rightarrow> section_result" where
  "handle_input ext u c memory x s st =
     (case insert_message st u c ''user'' x of
        (r1, st1) \<Rightarrow>
          (case reasoning_loop ext agent_executor memory x of
             None \<Rightarrow>
               (Some (Raised AgentError), s, st1,
                [St_chat_message ''user'' x, Call_insert_message u c ''user'' x,
                 Call_agent agent_executor memory x])
           | Some final_answer \<Rightarrow>
               (case insert_message st1 u c ''assistant'' final_answer of
                  (r2, st2) \<Rightarrow>
                    (None, s, st2,
                     [St_chat_message ''user'' x, Call_insert_message u c ''user'' x,
                      Call_agent agent_executor memory x,
                      St_chat_message ''assistant'' final_answer,
                      Call_insert_message u c ''assistant'' final_answer]))))"

text \<open>Lines 158 and 164 to 169 (the memory is read), 232 and 233 (the display loop).\<close>

definition show_history :: "string \<Rightarrow> store \<Rightarrow> string \<Rightarrow> effect list" where
  "show_history u st c =
     [St_success (''You are logged in as '' @ u @ ''.''),
      Call_get_chat_history c 3,
      Call_get_chat_history c 10]
     @ map (\<lambda>(r, m). St_chat_message r m) (get_chat_history st c 10)"

text \<open>
  Lines 156 to 247. The calls of lines 165 and 232 pass \<^verbatim>\<open>st.session_state.chat_id\<close> to
  the store; the store's contract takes a chat_id string, so the value \<^verbatim>\<open>None\<close> there
  ends the run with an error.
\<close>

definition message_view ::
  "externals \<Rightarrow> run_input \<Rightarrow> string \<Rightarrow> session_state \<Rightarrow> store \<Rightarrow> section_result" where
  "message_view ext i u s st =
     (case chat_id s of
        Some (Some c) \<Rightarrow>
          then_run (None, s, st, show_history u st c)
            (\<lambda>s1 st1.
               case chat_input i of
                 None \<Rightarrow> (None, s1, st1, [])
               | Some x \<Rightarrow>
                   if x \<noteq> [] then handle_input ext u c (get_langchain_messages st c) x s1 st1
                   else (None, s1, st1, []))
      | _ \<Rightarrow> (Some (Raised StoreContract), s, st, [St_success (''You are logged in as '' @ u @ ''.'')]))"

text \<open>
  Lines 106 to 247. Line 110 passes \<^verbatim>\<open>st.session_state.username\<close> to the store; the
  store's contract takes a username string, so the value \<^verbatim>\<open>None\<close> there ends the run
  with an error.
\<close>

definition authenticated_view ::
  "externals \<Rightarrow> run_input \<Rightarrow> session_state \<Rightarrow> store \<Rightarrow> section_result" where
  "authenticated_view ext i s st =
     (if authenticated s = Some True then
        (case username s of
           None \<Rightarrow> (Some (Raised StoreContract), s, st, [])
         | Some u \<Rightarrow>
             (let chat_list = get_all_chat_ids_for_user st u;
                  chat_ids = map fst chat_list
              in then_run (None, s, st, [Call_get_all_chat_ids_for_user u])
                   (\<lambda>s0 st0.
                      if chat_ids = [] then auto_create_chat i u s0 st0
                      else
                        (let selected_chat = chat_ids ! radio (length chat_ids) (radio_choice i)
                         in then_run (save_name i chat_list selected_chat s0 st0)
                           (\<lambda>s1 st1. then_run (delete_selected i selected_chat s1 st1)
                           (\<lambda>s2 st2. then_run (new_chat i u s2 st2)
                           (\<lambda>s3 st3. then_run (logout i s3 st3)
                           (\<lambda>s4 st4. then_run (use_selected_chat i u selected_chat s4 st4)
                           (\<lambda>s5 st5. message_view ext i u s5 st5)))))))))
      else (None, s, st, []))"

text \<open>One run of the file: lines 44 to 54 and then the three sections.\<close>

definition run ::
  "externals \<Rightarrow> run_input \<Rightarrow> session_state \<Rightarrow> store
     \<Rightarrow> outcome \<times> session_state \<times> store \<times> effect list" where
  "run ext i s st =
     (let s0 = init_session s in
      if app_down (app_status_env i) then (Stopped, s0, st, [St_error unavailable_message])
      else
        (case then_run (login_section ext i s0 st)
                (\<lambda>s1 st1. then_run (register_section ext i s1 st1)
                (\<lambda>s2 st2. authenticated_view ext i s2 st2)) of
           (Some oc, r) \<Rightarrow> (oc, r)
         | (None, r) \<Rightarrow> (Completed, r)))"

text \<open>A sequence of runs, each from the state the one before left.\<close>

fun runs :: "externals \<Rightarrow> run_input list \<Rightarrow> session_state \<Rightarrow> store \<Rightarrow> session_state \<times> store" where
  "runs ext [] s st = (s, st)"
| "runs ext (i # is) s st = (case run ext i s st of (oc, s', st', tr) \<Rightarrow> runs ext is s' st')"

section \<open>Notions used by the properties\<close>

text \<open>Lines 110 to 122: the chat the sidebar has selected, for a user with chats.\<close>

definition selected_of :: "store \<Rightarrow> string \<Rightarrow> run_input \<Rightarrow> string" where
  "selected_of st u i =
     (let chat_ids = map fst (get_all_chat_ids_for_user st u)
      in chat_ids ! radio (length chat_ids) (radio_choice i))"

text \<open>The chat_ids the script generates for a user: the username, an underscore and eight
  more characters.\<close>

definition chat_id_of :: "string \<Rightarrow> string \<Rightarrow> bool" where
  "chat_id_of u c = (length c = length u + 9 \<and> take (length u + 1) c = u @ ''_'')"

text \<open>The invariant of the chat store: every chat carries a chat_id of its owner.\<close>

definition wf_store :: "store \<Rightarrow> bool" where
  "wf_store st = list_all (\<lambda>ch. chat_id_of (owner_username ch) (cid ch)) (chats st)"

text \<open>The inputs of a run started by \<^verbatim>\<open>st.rerun()\<close>: no button is pressed and nothing
  is typed into the chat input.\<close>

definition no_click :: "run_input \<Rightarrow> bool" where
  "no_click i =
     (\<not> login_btn i \<and> \<not> register_btn i \<and> \<not> save_name_btn i \<and> \<not> delete_btn i
      \<and> \<not> new_chat_btn i \<and> \<not> logout_btn i \<and> chat_input i = None)"

text \<open>The store operations of a trace that name a chat, with that chat_id.\<close>

fun chat_of_call :: "effect \<Rightarrow> string option" where
  "chat_of_call (Call_insert_message u c r m) = Some c"
| "chat_of_call (Call_update_chat_name c nm) = Some c"
| "chat_of_call (Call_delete_chat c) = Some c"
| "chat_of_call (Call_get_chat_history c n) = Some c"
| "chat_of_call _ = None"

fun is_write_or_agent :: "effect \<Rightarrow> bool" where
  "is_write_or_agent (Call_insert_message u c r m) = True"
| "is_write_or_agent (Call_agent cfg mem x) = True"
| "is_write_or_agent _ = False"

text \<open>
  What the login and register sections can leave in a trace, and what the authenticated
  view can: no account call, the agent only with the configuration of lines 217 to 227,
  the history only with the two window sizes.
\<close>

fun account_effect :: "effect \<Rightarrow> bool" where
  "account_effect (St_error m) = True"
| "account_effect (St_success m) = True"
| "account_effect (Call_verify_user_credentials u p) = True"
| "account_effect (Call_get_user_by_username u) = True"
| "account_effect (Call_create_user u fn em p) = True"
| "account_effect _ = False"

fun view_effect :: "effect \<Rightarrow> bool" where
  "view_effect (Call_agent cfg mem x) = (cfg = agent_executor)"
| "view_effect (Call_get_chat_history c n) = (n = 3 \<or> n = 10)"
| "view_effect (Call_create_user u fn em p) = False"
| "view_effect (Call_verify_user_credentials u p) = False"
| "view_effect (Call_get_user_by_username u) = False"
| "view_effect _ = True"

section \<open>Example data\<close>

text \<open>
  A hashing primitive and a reasoning loop to run the script on, a user alice with the
  password \<^verbatim>\<open>p1\<close>, and the widget states of single clicks.
\<close>

definition ext0 :: externals where
  "ext0 = \<lparr>hash_password = rev, reasoning_loop = (\<lambda>cfg mem x. Some (''re: '' @ x))\<rparr>"

definition quiet :: run_input where
  "quiet =
     \<lparr>app_status_env = None, uuid4 = 0, username_input = [], password_input = [],
      login_btn = False, new_username = [], new_name = [], new_email = [], new_password = [],
      confirm_password = [], register_btn = False, radio_choice = 0, rename_input = None,
      save_name_btn = False, delete_btn = False, new_chat_btn = False, logout_btn = False,
      chat_input = None\<rparr>"

definition s_new :: session_state where
  "s_new = \<lparr>authenticated = None, username = None, name = None, chat_id = None\<rparr>"

definition st_alice :: store where
  "st_alice =
     \<lparr>users = [\<lparr>uname = ''alice'', full_name = ''Alice'', email = ''a@x'', password_hash = ''1p''\<rparr>],
      chats = []\<rparr>"

definition s_alice :: session_state where
  "s_alice =
     \<lparr>authenticated = Some True, username = Some ''alice'', name = Some ''Alice'',
      chat_id = Some (Some ''alice_00000000'')\<rparr>"

definition st_chat :: store where
  "st_chat =
     \<lparr>users = [\<lparr>uname = ''alice'', full_name = ''Alice'', email = ''a@x'', password_hash = ''1p''\<rparr>],
      chats = [\<lparr>cid = ''alice_00000000'', owner_username = ''alice'', display_name = None,
                msgs = [(''assistant'', ''m1''), (''user'', ''m2''), (''assistant'', ''m3''),
                        (''user'', ''m4'')]\<rparr>]\<rparr>"

definition i_login :: run_input where
  "i_login = quiet\<lparr>login_btn := True, username_input := ''alice'', password_input := ''p1''\<rparr>"

definition i_register :: run_input where
  "i_register =
     quiet\<lparr>register_btn := True, new_username := ''bob'', new_name := ''Bob'',
           new_email := ''b@x'', new_password := ''pw'', confirm_password := ''pw''\<rparr>"

definition i_register_taken :: run_input where
  "i_register_taken =
     quiet\<lparr>register_btn := True, new_username := ''alice'', new_name := ''Al'',
           new_email := ''b@x'', new_password := ''pw'', confirm_password := ''pw''\<rparr>"


definition i_chat :: run_input where
  "i_chat = quiet\<lparr>chat_input := Some ''hi''\<rparr>"

definition mem_alice :: "lc_message list" where
  "mem_alice = [HumanMessage ''m2'', AIMessage ''m3'', HumanMessage ''m4'']"

definition i_delete :: run_input where
  "i_delete = quiet\<lparr>delete_btn := True\<rparr>"



definition s_cleared :: session_state where
  "s_cleared =
     \<lparr>authenticated = Some True, username = Some ''alice'', name = Some ''Alice'',
      chat_id = Some None\<rparr>"

definition st_two :: store where
  "st_two =
     \<lparr>users = [\<lparr>uname = ''alice'', full_name = ''Alice'', email = ''a@x'', password_hash = ''1p''\<rparr>],
      chats = [\<lparr>cid = ''alice_00000000'', owner_username = ''alice'', display_name = None,
                msgs = [(''assistant'', ''m1'')]\<rparr>,
               \<lparr>cid = ''alice_0000000b'', owner_username = ''alice'', display_name = None,
                msgs = [(''assistant'', ''m2'')]\<rparr>]\<rparr>"

definition st_one :: store where
  "st_one =
     \<lparr>users = [\<lparr>uname = ''alice'', full_name = ''Alice'', email = ''a@x'', password_hash = ''1p''\<rparr>],
      chats = [\<lparr>cid = ''alice_0000000b'', owner_username = ''alice'', display_name = None,
                msgs = [(''assistant'', ''m2'')]\<rparr>]\<rparr>"

section \<open>Properties\<close>

lemma length_hex_digits: "length (hex_digits n v) = n"
  by (induction n arbitrary: v) simp_all

lemma length_uuid4_hex: "length (uuid4_hex w) = 32"
  by (simp add: uuid4_hex_def length_hex_digits)

lemma authenticated_view_anonymous:
  "authenticated s \<noteq> Some True \<Longrightarrow> authenticated_view ext i s st = (None, s, st, [])"
  by (simp add: authenticated_view_def)

lemma register_section_keeps_session:
  "register_section ext i s st = (oc, s', st', tr) \<Longrightarrow> oc = None \<and> s' = s"
  by (auto simp: register_section_def split: if_splits prod.splits)

lemma init_session_anonymous:
  "authenticated s \<noteq> Some True \<Longrightarrow> authenticated (init_session s) = Some False"
  by (cases "authenticated s") (auto simp: init_session_def)

lemma init_session_idem: "authenticated s \<noteq> None \<Longrightarrow> init_session s = s"
  by (auto simp add: init_session_def)

lemma init_session_chat_id: "chat_id (init_session s) = chat_id s"
  by (simp add: init_session_def)

lemma verify_has_user:
  "verify_user_credentials h st u p \<Longrightarrow> \<exists>usr. get_user_by_username st u = Some usr"
  by (auto simp: verify_user_credentials_def split: option.splits)

lemma fresh_chat_id_of: "chat_id_of u (fresh_chat_id u w)"
  by (simp add: chat_id_of_def fresh_chat_id_def length_uuid4_hex)

lemma chat_id_of_owner: "chat_id_of u c \<Longrightarrow> chat_id_of v c \<Longrightarrow> u = v"
  by (auto simp: chat_id_of_def)

lemma chat_id_of_nonempty: "chat_id_of u c \<Longrightarrow> c \<noteq> []"
  by (auto simp: chat_id_of_def)

lemma wf_store_owner:
  "wf_store st \<Longrightarrow> ch \<in> set (chats st) \<Longrightarrow> chat_id_of (owner_username ch) (cid ch)"
  by (simp add: wf_store_def list_all_iff)

lemma find_chat_Some: "find_chat st c = Some ch \<Longrightarrow> ch \<in> set (chats st) \<and> cid ch = c"
  by (auto simp: find_chat_def find_Some_iff)

lemma find_chat_None: "find_chat st c = None \<longleftrightarrow> c \<notin> cid ` set (chats st)"
  by (auto simp: find_chat_def find_None_iff)

lemma insert_message_wf_success:
  assumes "wf_store st" "chat_id_of u c"
  shows "fst (insert_message st u c r m) = Success"
proof (cases "find_chat st c")
  case None
  then show ?thesis by (simp add: insert_message_def)
next
  case (Some ch)
  with assms have "owner_username ch = u"
    using find_chat_Some wf_store_owner chat_id_of_owner by blast
  with Some show ?thesis by (simp add: insert_message_def)
qed

lemma insert_message_wf:
  assumes "wf_store st" "chat_id_of u c"
  shows "wf_store (snd (insert_message st u c r m))"
  using assms
  by (auto simp: insert_message_def wf_store_def list_all_iff split: option.splits)

lemma update_chat_name_wf: "wf_store st \<Longrightarrow> wf_store (snd (update_chat_name st c nm))"
  by (auto simp: update_chat_name_def wf_store_def list_all_iff)

lemma delete_chat_wf: "wf_store st \<Longrightarrow> wf_store (snd (delete_chat st c))"
  by (auto simp: delete_chat_def wf_store_def list_all_iff)

lemma create_user_wf: "wf_store st \<Longrightarrow> wf_store (snd (create_user h st u fn em p))"
  by (auto simp: create_user_def wf_store_def)

lemma selected_of_in_list:
  assumes "get_all_chat_ids_for_user st u \<noteq> []"
  shows "selected_of st u i \<in> fst ` set (get_all_chat_ids_for_user st u)"
proof -
  let ?ids = "map fst (get_all_chat_ids_for_user st u)"
  from assms have "radio (length ?ids) (radio_choice i) < length ?ids"
    by (simp add: radio_def)
  then have "?ids ! radio (length ?ids) (radio_choice i) \<in> set ?ids"
    by (rule nth_mem)
  then show ?thesis by (simp add: selected_of_def Let_def)
qed

lemma listed_chat:
  "c \<in> fst ` set (get_all_chat_ids_for_user st u) \<Longrightarrow>
     \<exists>ch \<in> set (chats st). cid ch = c \<and> owner_username ch = u"
  by (auto simp: get_all_chat_ids_for_user_def)

lemma listed_chat_found:
  "c \<in> fst ` set (get_all_chat_ids_for_user st u) \<Longrightarrow> find_chat st c \<noteq> None"
  by (auto simp: find_chat_None dest!: listed_chat)

lemma listed_chat_id_of:
  "wf_store st \<Longrightarrow> c \<in> fst ` set (get_all_chat_ids_for_user st u) \<Longrightarrow> chat_id_of u c"
  by (auto dest!: listed_chat dest: wf_store_owner)

lemma run_authenticated:
  assumes "\<not> app_down (app_status_env i)" "authenticated s = Some True"
  shows "run ext i s st =
     (case authenticated_view ext i s st of (Some oc, r) \<Rightarrow> (oc, r) | (None, r) \<Rightarrow> (Completed, r))"
  using assms
  by (simp add: run_def init_session_def login_section_def register_section_def then_run_def
      split: prod.splits option.splits)

lemma save_name_listed:
  assumes "find_chat st c \<noteq> None" "save_name_btn i"
  shows "save_name i cl c s st =
     (Some Rerun, s, snd (update_chat_name st c (rename_text i cl c)),
      [Call_update_chat_name c (rename_text i cl c), St_success ''Chat name updated.''])"
  using assms by (simp add: save_name_def update_chat_name_def)

lemma delete_selected_listed:
  assumes "find_chat st c \<noteq> None" "delete_btn i"
  shows "delete_selected i c s st =
     (Some Rerun, s\<lparr>chat_id := Some None\<rparr>, snd (delete_chat st c),
      [Call_delete_chat c, St_success ''Chat deleted.''])"
  using assms by (simp add: delete_selected_def delete_chat_def)

lemma authenticated_view_unfold:
  assumes "authenticated s = Some True" "username s = Some u"
    and "get_all_chat_ids_for_user st u \<noteq> []"
  shows "authenticated_view ext i s st =
     then_run (None, s, st, [Call_get_all_chat_ids_for_user u])
       (\<lambda>s0 st0. then_run (save_name i (get_all_chat_ids_for_user st u) (selected_of st u i) s0 st0)
       (\<lambda>s1 st1. then_run (delete_selected i (selected_of st u i) s1 st1)
       (\<lambda>s2 st2. then_run (new_chat i u s2 st2)
       (\<lambda>s3 st3. then_run (logout i s3 st3)
       (\<lambda>s4 st4. then_run (use_selected_chat i u (selected_of st u i) s4 st4)
       (\<lambda>s5 st5. message_view ext i u s5 st5))))))"
  using assms by (simp add: authenticated_view_def selected_of_def Let_def)

lemma run_authenticated_cases [consumes 5,
    case_names auto_create save_name delete new_chat logout switch idle agent_raises answer]:
  assumes "\<not> app_down (app_status_env i)" and "authenticated s = Some True"
    and "username s = Some u" and "wf_store st" and "run ext i s st = (oc, s', st', tr)"
  obtains
    (auto_create) "get_all_chat_ids_for_user st u = []" "oc = Rerun"
      "s' = s\<lparr>chat_id := Some (Some (fresh_chat_id u (uuid4 i)))\<rparr>"
      "st' = snd (insert_message st u (fresh_chat_id u (uuid4 i)) ''assistant'' (greeting_auto u))"
      "tr = [Call_get_all_chat_ids_for_user u,
             St_warning (''No chats found. Click '' @ plus_sign @ '' New Chat to start.''),
             Call_insert_message u (fresh_chat_id u (uuid4 i)) ''assistant'' (greeting_auto u)]"
  | (save_name) "get_all_chat_ids_for_user st u \<noteq> []" "save_name_btn i" "oc = Rerun" "s' = s"
      "st' = snd (update_chat_name st (selected_of st u i)
                    (rename_text i (get_all_chat_ids_for_user st u) (selected_of st u i)))"
      "tr = [Call_get_all_chat_ids_for_user u,
             Call_update_chat_name (selected_of st u i)
               (rename_text i (get_all_chat_ids_for_user st u) (selected_of st u i)),
             St_success ''Chat name updated.'']"
  | (delete) "get_all_chat_ids_for_user st u \<noteq> []" "\<not> save_name_btn i" "delete_btn i"
      "oc = Rerun" "s' = s\<lparr>chat_id := Some None\<rparr>"
      "st' = snd (delete_chat st (selected_of st u i))"
      "tr = [Call_get_all_chat_ids_for_user u, Call_delete_chat (selected_of st u i),
             St_success ''Chat deleted.'']"
  | (new_chat) "get_all_chat_ids_for_user st u \<noteq> []" "\<not> save_name_btn i" "\<not> delete_btn i"
      "new_chat_btn i" "oc = Rerun"
      "s' = s\<lparr>chat_id := Some (Some (fresh_chat_id u (uuid4 i)))\<rparr>"
      "st' = snd (insert_message st u (fresh_chat_id u (uuid4 i)) ''assistant'' (greeting_new u))"
      "tr = [Call_get_all_chat_ids_for_user u,
             Call_insert_message u (fresh_chat_id u (uuid4 i)) ''assistant'' (greeting_new u)]"
  | (logout) "get_all_chat_ids_for_user st u \<noteq> []" "\<not> save_name_btn i" "\<not> delete_btn i"
      "\<not> new_chat_btn i" "logout_btn i" "oc = Rerun"
      "s' = \<lparr>authenticated = None, username = None, name = None, chat_id = None\<rparr>"
      "st' = st" "tr = [Call_get_all_chat_ids_for_user u]"
  | (switch) "get_all_chat_ids_for_user st u \<noteq> []" "\<not> save_name_btn i" "\<not> delete_btn i"
      "\<not> new_chat_btn i" "\<not> logout_btn i" "chat_id s \<noteq> None"
      "chat_id s \<noteq> Some (Some (selected_of st u i))" "oc = Rerun"
      "s' = s\<lparr>chat_id := Some (Some (selected_of st u i))\<rparr>"
      "st' = st" "tr = [Call_get_all_chat_ids_for_user u]"
  | (idle) "get_all_chat_ids_for_user st u \<noteq> []" "\<not> save_name_btn i" "\<not> delete_btn i"
      "\<not> new_chat_btn i" "\<not> logout_btn i"
      "chat_id s = None \<or> chat_id s = Some (Some (selected_of st u i))"
      "chat_input i = None \<or> chat_input i = Some []" "oc = Completed"
      "s' = s\<lparr>chat_id := Some (Some (selected_of st u i))\<rparr>" "st' = st"
      "tr = Call_get_all_chat_ids_for_user u # show_history u st (selected_of st u i)"
  | (agent_raises) x where "get_all_chat_ids_for_user st u \<noteq> []" "\<not> save_name_btn i"
      "\<not> delete_btn i" "\<not> new_chat_btn i" "\<not> logout_btn i"
      "chat_id s = None \<or> chat_id s = Some (Some (selected_of st u i))"
      "chat_input i = Some x" "x \<noteq> []"
      "reasoning_loop ext agent_executor (get_langchain_messages st (selected_of st u i)) x = None"
      "oc = Raised AgentError"
      "s' = s\<lparr>chat_id := Some (Some (selected_of st u i))\<rparr>"
      "st' = snd (insert_message st u (selected_of st u i) ''user'' x)"
      "tr = Call_get_all_chat_ids_for_user u # show_history u st (selected_of st u i)
            @ [St_chat_message ''user'' x,
               Call_insert_message u (selected_of st u i) ''user'' x,
               Call_agent agent_executor (get_langchain_messages st (selected_of st u i)) x]"
  | (answer) x a where "get_all_chat_ids_for_user st u \<noteq> []" "\<not> save_name_btn i"
      "\<not> delete_btn i" "\<not> new_chat_btn i" "\<not> logout_btn i"
      "chat_id s = None \<or> chat_id s = Some (Some (selected_of st u i))"
      "chat_input i = Some x" "x \<noteq> []"
      "reasoning_loop ext agent_executor (get_langchain_messages st (selected_of st u i)) x = Some a"
      "oc = Completed"
      "s' = s\<lparr>chat_id := Some (Some (selected_of st u i))\<rparr>"
      "st' = snd (insert_message (snd (insert_message st u (selected_of st u i) ''user'' x))
                    u (selected_of st u i) ''assistant'' a)"
      "tr = Call_get_all_chat_ids_for_user u # show_history u st (selected_of st u i)
            @ [St_chat_message ''user'' x,
               Call_insert_message u (selected_of st u i) ''user'' x,
               Call_agent agent_executor (get_langchain_messages st (selected_of st u i)) x,
               St_chat_message ''assistant'' a,
               Call_insert_message u (selected_of st u i) ''assistant'' a]"
proof (cases "get_all_chat_ids_for_user st u = []")
  case True
  with assms have "oc = Rerun \<and>
      s' = s\<lparr>chat_id := Some (Some (fresh_chat_id u (uuid4 i)))\<rparr> \<and>
      st' = snd (insert_message st u (fresh_chat_id u (uuid4 i)) ''assistant'' (greeting_auto u)) \<and>
      tr = [Call_get_all_chat_ids_for_user u,
             St_warning (''No chats found. Click '' @ plus_sign @ '' New Chat to start.''),
             Call_insert_message u (fresh_chat_id u (uuid4 i)) ''assistant'' (greeting_auto u)]"
    by (auto simp: run_authenticated authenticated_view_def then_run_def auto_create_chat_def Let_def
        split: prod.splits)
  with True show ?thesis using auto_create by blast
next
  case False
  let ?c = "selected_of st u i"
  from False have inl: "?c \<in> fst ` set (get_all_chat_ids_for_user st u)"
    by (rule selected_of_in_list)
  then have found: "find_chat st ?c \<noteq> None" by (rule listed_chat_found)
  from inl assms(4) have "chat_id_of u ?c" by (simp add: listed_chat_id_of)
  then have ne: "?c \<noteq> []" by (rule chat_id_of_nonempty)
  note view = authenticated_view_unfold[OF assms(2,3) False, of ext i]
  from assms(5) have r: "(case authenticated_view ext i s st of
       (Some oc, r) \<Rightarrow> (oc, r) | (None, r) \<Rightarrow> (Completed, r)) = (oc, s', st', tr)"
    by (simp add: run_authenticated[OF assms(1,2)])
  show ?thesis
  proof (cases "save_name_btn i")
    case True
    with r found show ?thesis
      by (intro save_name[OF False True])
         (auto simp: view then_run_def save_name_listed)
  next
    case ns: False
    show ?thesis
    proof (cases "delete_btn i")
      case True
      with r found ns show ?thesis
        by (intro delete[OF False ns True])
           (auto simp: view then_run_def save_name_def delete_selected_listed)
    next
      case nd: False
      show ?thesis
      proof (cases "new_chat_btn i")
        case True
        with r ns nd show ?thesis
          by (intro new_chat[OF False ns nd True])
             (auto simp: view then_run_def save_name_def delete_selected_def new_chat_def Let_def
                   split: prod.splits)
      next
        case nn: False
        show ?thesis
        proof (cases "logout_btn i")
          case True
          with r ns nd nn show ?thesis
            by (intro logout[OF False ns nd nn True])
               (auto simp: view then_run_def save_name_def delete_selected_def new_chat_def
                     logout_def)
        next
          case nl: False
          note pre = view then_run_def save_name_def delete_selected_def new_chat_def logout_def
          show ?thesis
          proof (cases "chat_id s \<noteq> None \<and> chat_id s \<noteq> Some (Some ?c)")
            case True
            with r ns nd nn nl ne show ?thesis
              by (intro switch[OF False ns nd nn nl])
                 (auto simp: pre use_selected_chat_def split: option.splits)
          next
            case same: False
            then have same': "chat_id s = None \<or> chat_id s = Some (Some ?c)" by blast
            show ?thesis
            proof (cases "chat_input i = None \<or> chat_input i = Some []")
              case True
              with r ns nd nn nl ne same' show ?thesis
                by (intro idle[OF False ns nd nn nl same' True])
                   (auto simp: pre use_selected_chat_def message_view_def split: option.splits)
            next
              case False
              then obtain x where x: "chat_input i = Some x" "x \<noteq> []" by auto
              show ?thesis
              proof (cases "reasoning_loop ext agent_executor (get_langchain_messages st ?c) x")
                case None
                with r ns nd nn nl ne same' x show ?thesis
                  by (intro agent_raises[OF \<open>get_all_chat_ids_for_user st u \<noteq> []\<close> ns nd nn nl same' x None])
                     (auto simp: pre use_selected_chat_def message_view_def handle_input_def
                           split: option.splits prod.splits)
              next
                case (Some a)
                with r ns nd nn nl ne same' x show ?thesis
                  by (intro answer[OF \<open>get_all_chat_ids_for_user st u \<noteq> []\<close> ns nd nn nl same' x Some])
                     (auto simp: pre use_selected_chat_def message_view_def handle_input_def
                           split: option.splits prod.splits)
              qed
            qed
          qed
        qed
      qed
    qed
  qed
qed

lemma run_down:
  "app_down (app_status_env i) \<Longrightarrow>
     run ext i s st = (Stopped, init_session s, st, [St_error unavailable_message])"
  by (simp add: run_def)

lemma run_no_username:
  assumes "\<not> app_down (app_status_env i)" "authenticated s = Some True" "username s = None"
  shows "run ext i s st = (Raised StoreContract, s, st, [])"
  using assms by (simp add: run_authenticated authenticated_view_def)

lemma run_anonymous:
  assumes "authenticated s \<noteq> Some True" "\<not> app_down (app_status_env i)"
  shows "run ext i s st =
     (case login_section ext i (init_session s) st of
        (Some oc, r) \<Rightarrow> (oc, r)
      | (None, s1, st1, tr1) \<Rightarrow>
          (case register_section ext i s1 st1 of
             (oc2, s2, st2, tr2) \<Rightarrow> (Completed, s2, st2, tr1 @ tr2)))"
  using assms init_session_anonymous[OF assms(1)]
  apply (simp add: run_def then_run_def Let_def split: prod.splits option.splits)
  apply (auto simp: login_section_def authenticated_view_anonymous
      dest!: register_section_keeps_session split: if_splits option.splits)
  done

lemma login_section_store:
  "login_section ext i s st = (oc, s', st', tr) \<Longrightarrow>
     st' = st \<and> (\<forall>e\<in>set tr. account_effect e) \<and> (oc = None \<longrightarrow> s' = s)
     \<and> (\<forall>a b c d. Call_create_user a b c d \<notin> set tr)"
  by (auto simp: login_section_def split: if_splits option.splits)

lemma register_section_store:
  "register_section ext i s st = (oc, s', st', tr) \<Longrightarrow>
     chats st' = chats st \<and> (\<forall>e\<in>set tr. account_effect e)"
  by (auto simp: register_section_def create_user_def split: if_splits prod.splits)

lemma register_section_guard:
  assumes "register_section ext i s st = (oc, s', st', tr)" "Call_create_user a b c d \<in> set tr"
  shows "register_btn i \<and> new_password i = confirm_password i
     \<and> get_user_by_username st (new_username i) = None
     \<and> a = new_username i \<and> b = new_name i \<and> c = new_email i \<and> d = new_password i"
  using assms by (auto simp: register_section_def split: if_splits prod.splits)

lemma run_anonymous_facts:
  assumes "authenticated s \<noteq> Some True" "\<not> app_down (app_status_env i)"
    and "run ext i s st = (oc, s', st', tr)"
  shows "chats st' = chats st \<and> (\<forall>e\<in>set tr. account_effect e)"
  using assms(3)
  by (auto simp: run_anonymous[OF assms(1,2)] split: prod.splits option.splits
      dest!: login_section_store register_section_store)

lemma run_preserves_wf:
  assumes "wf_store st" and "run ext i s st = (oc, s', st', tr)"
  shows "wf_store st'"
proof (cases "app_down (app_status_env i)")
  case True
  with assms show ?thesis by (simp add: run_down)
next
  case up: False
  show ?thesis
  proof (cases "authenticated s = Some True")
    case False
    from run_anonymous_facts[OF False up assms(2)] assms(1) show ?thesis
      by (simp add: wf_store_def)
  next
    case auth: True
    show ?thesis
    proof (cases "username s")
      case None
      with assms up auth show ?thesis by (simp add: run_no_username)
    next
      case (Some u)
      have sel: "get_all_chat_ids_for_user st u \<noteq> [] \<Longrightarrow> chat_id_of u (selected_of st u i)"
        using assms(1) by (simp add: listed_chat_id_of selected_of_in_list)
      from up auth Some assms show ?thesis
      proof (cases rule: run_authenticated_cases)
        case auto_create
        show ?thesis unfolding auto_create(4)
          by (rule insert_message_wf[OF assms(1) fresh_chat_id_of])
      next
        case save_name
        show ?thesis unfolding save_name(5) by (rule update_chat_name_wf[OF assms(1)])
      next
        case delete
        show ?thesis unfolding delete(6) by (rule delete_chat_wf[OF assms(1)])
      next
        case new_chat
        show ?thesis unfolding new_chat(7)
          by (rule insert_message_wf[OF assms(1) fresh_chat_id_of])
      next
        case logout
        with assms(1) show ?thesis by blast
      next
        case switch
        with assms(1) show ?thesis by blast
      next
        case idle
        with assms(1) show ?thesis by blast
      next
        case (agent_raises x)
        show ?thesis unfolding agent_raises(12)
          by (rule insert_message_wf[OF assms(1) sel[OF agent_raises(1)]])
      next
        case (answer x a)
        show ?thesis unfolding answer(12)
          by (intro insert_message_wf assms(1) sel[OF answer(1)])
      qed
    qed
  qed
qed

lemma runs_preserve_wf: "wf_store st \<Longrightarrow> wf_store (snd (runs ext is s st))"
proof (induction "is" arbitrary: s st)
  case Nil
  then show ?case by simp
next
  case (Cons i "is")
  obtain oc s' st' tr where r: "run ext i s st = (oc, s', st', tr)"
    by (cases "run ext i s st") auto
  from Cons.prems r have "wf_store st'" by (rule run_preserves_wf)
  with Cons.IH r show ?case by simp
qed



text \<open>
  Claim C1. A login attempt is a run of an anonymous session with the login button pressed
  while the app is up. The session ends authenticated exactly when the credential store
  verifies the submitted pair, and then username and name are those of the stored user;
  when the store does not verify the pair, the session is the anonymous session it was
  (after the initialisation of lines 44 to 47) and the error message of line 75 is shown.
\<close>

theorem login_iff_verified:
  assumes "authenticated s \<noteq> Some True" and "\<not> app_down (app_status_env i)" and "login_btn i"
    and "run ext i s st = (oc, s', st', tr)"
  shows "(authenticated s' = Some True \<longleftrightarrow>
            verify_user_credentials (hash_password ext) st (username_input i) (password_input i))
       \<and> (verify_user_credentials (hash_password ext) st (username_input i) (password_input i) \<longrightarrow>
            (\<exists>usr. get_user_by_username st (username_input i) = Some usr
               \<and> username s' = Some (uname usr) \<and> name s' = Some (full_name usr)))
       \<and> (\<not> verify_user_credentials (hash_password ext) st (username_input i) (password_input i) \<longrightarrow>
            s' = init_session s \<and> authenticated s' = Some False
          \<and> St_error ''Incorrect username or password.'' \<in> set tr)"
proof (cases "verify_user_credentials (hash_password ext) st (username_input i) (password_input i)")
  case True
  then obtain usr where u: "get_user_by_username st (username_input i) = Some usr"
    using verify_has_user by blast
  from assms(4) True u assms(1,3) init_session_anonymous[OF assms(1)] show ?thesis
    by (auto simp: run_anonymous[OF assms(1,2)] login_section_def)
next
  case False
  from assms(4) False assms(1,3) init_session_anonymous[OF assms(1)] show ?thesis
    by (auto simp: run_anonymous[OF assms(1,2)] login_section_def split: prod.splits
        dest!: register_section_keeps_session)
qed

theorem login_iff_verified_witness:
  "verify_user_credentials (hash_password ext0) st_alice (username_input i_login)
     (password_input i_login)
   \<and> authenticated (fst (snd (run ext0 i_login s_new st_alice))) = Some True"
proof -
  have a: "authenticated s_new \<noteq> Some True" by (simp add: s_new_def)
  have b: "\<not> app_down (app_status_env i_login)" by code_simp
  have c: "login_btn i_login" by code_simp
  have v: "verify_user_credentials (hash_password ext0) st_alice (username_input i_login)
     (password_input i_login)" by code_simp
  obtain oc s' st' tr where r: "run ext0 i_login s_new st_alice = (oc, s', st', tr)"
    by (cases "run ext0 i_login s_new st_alice") auto
  from login_iff_verified[OF a b c r] v show ?thesis by (simp add: r)
qed



text \<open>
  Claim C6. A registration attempt is a run of an anonymous session with the Register
  button pressed in which no login succeeds. Whatever the outcome of the registration,
  the run reaches the end of the script with the session still anonymous: the session is
  the one it was (after the initialisation of lines 44 to 47), the chat_id is untouched.
\<close>

theorem register_keeps_session:
  assumes "authenticated s \<noteq> Some True" and "\<not> app_down (app_status_env i)"
    and "register_btn i"
    and "\<not> (login_btn i \<and>
            verify_user_credentials (hash_password ext) st (username_input i) (password_input i))"
    and "run ext i s st = (oc, s', st', tr)"
  shows "oc = Completed \<and> s' = init_session s \<and> authenticated s' = Some False
       \<and> chat_id s' = chat_id s \<and> (authenticated s = Some False \<longrightarrow> s' = s)"
proof -
  from assms(4) have l: "\<exists>tr1. login_section ext i (init_session s) st = (None, init_session s, st, tr1)"
    by (auto simp: login_section_def)
  with assms(5) have "oc = Completed \<and> s' = init_session s"
    by (auto simp: run_anonymous[OF assms(1,2)] split: prod.splits
        dest!: register_section_keeps_session)
  with assms(1) show ?thesis
    by (auto simp: init_session_anonymous init_session_chat_id init_session_idem)
qed

theorem register_keeps_session_witness:
  "register_btn i_register
   \<and> Call_create_user ''bob'' ''Bob'' ''b@x'' ''pw'' \<in> set (snd (snd (snd (run ext0 i_register s_new st_alice))))
   \<and> authenticated (fst (snd (run ext0 i_register s_new st_alice))) = Some False
   \<and> chat_id (fst (snd (run ext0 i_register s_new st_alice))) = None"
proof -
  have a: "authenticated s_new \<noteq> Some True" by (simp add: s_new_def)
  have b: "\<not> app_down (app_status_env i_register)" by code_simp
  have c: "register_btn i_register" by code_simp
  have d: "\<not> (login_btn i_register \<and> verify_user_credentials (hash_password ext0) st_alice
      (username_input i_register) (password_input i_register))" by code_simp
  have e: "Call_create_user ''bob'' ''Bob'' ''b@x'' ''pw''
      \<in> set (snd (snd (snd (run ext0 i_register s_new st_alice))))" by code_simp
  have f: "chat_id s_new = None" by (simp add: s_new_def)
  obtain oc s' st' tr where r: "run ext0 i_register s_new st_alice = (oc, s', st', tr)"
    by (cases "run ext0 i_register s_new st_alice") auto
  from register_keeps_session[OF a b c d r] c e f show ?thesis by (auto simp: r)
qed

lemma register_attempt_guarded:
  assumes "authenticated s \<noteq> Some True" and "\<not> app_down (app_status_env i)"
    and "run ext i s st = (oc, s', st', tr)"
  shows "(\<forall>a b c d. Call_create_user a b c d \<in> set tr \<longrightarrow>
            register_btn i \<and> new_password i = confirm_password i
          \<and> get_user_by_username st (new_username i) = None
          \<and> a = new_username i \<and> b = new_name i \<and> c = new_email i \<and> d = new_password i)
       \<and> (register_btn i \<and> oc = Completed \<and> new_password i \<noteq> confirm_password i \<longrightarrow>
            st' = st \<and> St_error ''Passwords do not match.'' \<in> set tr)
       \<and> (register_btn i \<and> oc = Completed \<and> new_password i = confirm_password i
            \<and> get_user_by_username st (new_username i) \<noteq> None \<longrightarrow>
            st' = st \<and> St_error ''Username already exists.'' \<in> set tr)
       \<and> (new_password i \<noteq> confirm_password i \<or> get_user_by_username st (new_username i) \<noteq> None
            \<longrightarrow> st' = st)"
proof (cases "login_section ext i (init_session s) st")
  case (fields oc1 s1 st1 tr1)
  note l = login_section_store[OF fields]
  show ?thesis
  proof (cases oc1)
    case (Some o1)
    with assms(3) fields l show ?thesis
      by (auto simp: run_anonymous[OF assms(1,2)] login_section_def split: if_splits option.splits)
  next
    case None
    with l have s1: "s1 = init_session s" "st1 = st" by auto
    obtain oc2 s2 st2 tr2 where
      g: "register_section ext i (init_session s) st = (oc2, s2, st2, tr2)"
      by (cases "register_section ext i (init_session s) st") auto
    from assms(3) fields None s1 g have res: "oc = Completed" "st' = st2" "tr = tr1 @ tr2"
      by (auto simp: run_anonymous[OF assms(1,2)])
    have anon: "authenticated (init_session s) \<noteq> Some True"
      using assms(1) by (simp add: init_session_anonymous)
    have 1: "\<forall>a b c d. Call_create_user a b c d \<in> set tr \<longrightarrow>
            register_btn i \<and> new_password i = confirm_password i
          \<and> get_user_by_username st (new_username i) = None
          \<and> a = new_username i \<and> b = new_name i \<and> c = new_email i \<and> d = new_password i"
      using res l register_section_guard[OF g] by auto
    have 2: "register_btn i \<and> new_password i \<noteq> confirm_password i \<longrightarrow>
            st' = st \<and> St_error ''Passwords do not match.'' \<in> set tr"
      using g res anon by (auto simp: register_section_def)
    have 3: "register_btn i \<and> new_password i = confirm_password i
            \<and> get_user_by_username st (new_username i) \<noteq> None \<longrightarrow>
            st' = st \<and> St_error ''Username already exists.'' \<in> set tr"
      using g res anon by (auto simp: register_section_def)
    have 4: "new_password i \<noteq> confirm_password i \<or> get_user_by_username st (new_username i) \<noteq> None
            \<longrightarrow> st' = st"
      using g res by (auto simp: register_section_def split: if_splits)
    from 1 2 3 4 show ?thesis by blast
  qed
qed


lemma account_effect_no_write: "account_effect e \<Longrightarrow> \<not> is_write_or_agent e"
  by (cases e) simp_all

lemma then_run_effects:
  assumes "\<forall>e\<in>set (snd (snd (snd r))). Q e"
    and "\<And>s1 st1. \<forall>e\<in>set (snd (snd (snd (g s1 st1)))). Q e"
  shows "\<forall>e\<in>set (snd (snd (snd (then_run r g)))). Q e"
proof -
  obtain oc1 s1 st1 tr1 where r: "r = (oc1, s1, st1, tr1)" by (cases r) auto
  obtain oc2 s2 st2 tr2 where g: "g s1 st1 = (oc2, s2, st2, tr2)" by (cases "g s1 st1") auto
  from assms(1) r assms(2)[of s1 st1] g show ?thesis
    by (cases oc1) (auto simp: then_run_def)
qed

lemma save_name_effects: "\<forall>e\<in>set (snd (snd (snd (save_name i cl c s st)))). view_effect e"
  by (simp add: save_name_def split: prod.splits)

lemma delete_selected_effects: "\<forall>e\<in>set (snd (snd (snd (delete_selected i c s st)))). view_effect e"
  by (simp add: delete_selected_def split: prod.splits)

lemma new_chat_effects: "\<forall>e\<in>set (snd (snd (snd (new_chat i u s st)))). view_effect e"
  by (simp add: new_chat_def Let_def split: prod.splits)

lemma logout_effects: "\<forall>e\<in>set (snd (snd (snd (logout i s st)))). view_effect e"
  by (simp add: logout_def)

lemma use_selected_chat_effects:
  "\<forall>e\<in>set (snd (snd (snd (use_selected_chat i u c s st)))). view_effect e"
  by (simp add: use_selected_chat_def split: option.splits)

lemma auto_create_chat_effects:
  "\<forall>e\<in>set (snd (snd (snd (auto_create_chat i u s st)))). view_effect e"
  by (simp add: auto_create_chat_def Let_def split: prod.splits)

lemma handle_input_effects:
  "\<forall>e\<in>set (snd (snd (snd (handle_input ext u c mem x s st)))). view_effect e"
  by (simp add: handle_input_def split: prod.splits option.splits)

lemma show_history_effects: "\<forall>e\<in>set (show_history u st c). view_effect e"
  by (auto simp: show_history_def)

lemma message_view_effects:
  "\<forall>e\<in>set (snd (snd (snd (message_view ext i u s st)))). view_effect e"
proof (cases "chat_id s")
  case None
  then show ?thesis by (simp add: message_view_def)
next
  case (Some cur)
  show ?thesis
  proof (cases cur)
    case None
    with Some show ?thesis by (simp add: message_view_def)
  next
    case inner: (Some c)
    have "\<forall>e\<in>set (snd (snd (snd (then_run (None, s, st, show_history u st c)
            (\<lambda>s1 st1. case chat_input i of None \<Rightarrow> (None, s1, st1, [])
               | Some x \<Rightarrow> if x \<noteq> [] then handle_input ext u c (get_langchain_messages st c) x s1 st1
                           else (None, s1, st1, [])))))). view_effect e"
      by (rule then_run_effects)
         (simp_all add: show_history_effects handle_input_effects split: option.splits)
    with Some inner show ?thesis by (simp add: message_view_def)
  qed
qed

lemma authenticated_view_effects:
  "\<forall>e\<in>set (snd (snd (snd (authenticated_view ext i s st)))). view_effect e"
proof (cases "authenticated s = Some True")
  case False
  then show ?thesis by (simp add: authenticated_view_def)
next
  case auth: True
  show ?thesis
  proof (cases "username s")
    case None
    with auth show ?thesis by (simp add: authenticated_view_def)
  next
    case (Some u)
    show ?thesis
    proof (cases "get_all_chat_ids_for_user st u = []")
      case True
      have "\<forall>e\<in>set (snd (snd (snd (then_run (None, s, st, [Call_get_all_chat_ids_for_user u])
              (\<lambda>s0 st0. auto_create_chat i u s0 st0))))). view_effect e"
        by (rule then_run_effects) (simp_all add: auto_create_chat_effects)
      with auth Some True show ?thesis by (simp add: authenticated_view_def)
    next
      case False
      show ?thesis
        unfolding authenticated_view_unfold[OF auth Some False]
        by (intro then_run_effects save_name_effects delete_selected_effects new_chat_effects
              logout_effects use_selected_chat_effects message_view_effects) simp
    qed
  qed
qed

lemma run_effects:
  assumes "run ext i s st = (oc, s', st', tr)" and "e \<in> set tr"
  shows "account_effect e \<or> view_effect e"
proof (cases "app_down (app_status_env i)")
  case True
  with assms show ?thesis by (auto simp: run_down)
next
  case up: False
  show ?thesis
  proof (cases "authenticated s = Some True")
    case False
    from run_anonymous_facts[OF False up assms(1)] assms(2) show ?thesis by blast
  next
    case True
    from assms(1) have "tr = snd (snd (snd (authenticated_view ext i s st)))"
      by (auto simp: run_authenticated[OF up True] split: prod.splits option.splits)
    with authenticated_view_effects[of ext i s st] assms(2) show ?thesis by blast
  qed
qed

lemma insert_message_users: "users (snd (insert_message st u c r m)) = users st"
  by (simp add: insert_message_def split: option.splits)

lemma update_chat_name_users: "users (snd (update_chat_name st c nm)) = users st"
  by (simp add: update_chat_name_def)

lemma delete_chat_users: "users (snd (delete_chat st c)) = users st"
  by (simp add: delete_chat_def)

lemma then_run_users:
  assumes "users (fst (snd (snd r))) = U"
    and "\<And>s1 st1. users st1 = U \<Longrightarrow> users (fst (snd (snd (g s1 st1)))) = U"
  shows "users (fst (snd (snd (then_run r g)))) = U"
proof -
  obtain oc1 s1 st1 tr1 where r: "r = (oc1, s1, st1, tr1)" by (cases r) auto
  obtain oc2 s2 st2 tr2 where g: "g s1 st1 = (oc2, s2, st2, tr2)" by (cases "g s1 st1") auto
  from assms(1) r assms(2)[of st1 s1] g show ?thesis
    by (cases oc1) (auto simp: then_run_def)
qed

lemma save_name_users: "users (fst (snd (snd (save_name i cl c s st)))) = users st"
proof -
  have "snd (update_chat_name st c (rename_text i cl c)) = st'
      \<Longrightarrow> users st' = users st" for st'
    using update_chat_name_users[of st c "rename_text i cl c"] by simp
  then show ?thesis by (auto simp: save_name_def split: prod.splits)
qed

lemma delete_selected_users: "users (fst (snd (snd (delete_selected i c s st)))) = users st"
proof -
  have "snd (delete_chat st c) = st' \<Longrightarrow> users st' = users st" for st'
    using delete_chat_users[of st c] by simp
  then show ?thesis by (auto simp: delete_selected_def split: prod.splits)
qed

lemma new_chat_users: "users (fst (snd (snd (new_chat i u s st)))) = users st"
proof -
  have "insert_message st u c r m = (res, st') \<Longrightarrow> users st' = users st" for st' c r m res
    using insert_message_users[of st u c r m] by simp
  then show ?thesis by (auto simp: new_chat_def Let_def split: prod.splits)
qed

lemma auto_create_chat_users: "users (fst (snd (snd (auto_create_chat i u s st)))) = users st"
proof -
  have "insert_message st u c r m = (res, st') \<Longrightarrow> users st' = users st" for st' c r m res
    using insert_message_users[of st u c r m] by simp
  then show ?thesis by (auto simp: auto_create_chat_def Let_def split: prod.splits)
qed

lemma logout_users: "users (fst (snd (snd (logout i s st)))) = users st"
  by (simp add: logout_def)

lemma use_selected_chat_users: "users (fst (snd (snd (use_selected_chat i u c s st)))) = users st"
  by (simp add: use_selected_chat_def split: option.splits)

lemma handle_input_users: "users (fst (snd (snd (handle_input ext u c mem x s st)))) = users st"
proof -
  have "insert_message st0 u c r m = (res, st') \<Longrightarrow> users st' = users st0" for st0 st' r m res
    using insert_message_users[of st0 u c r m] by simp
  then show ?thesis by (auto simp: handle_input_def split: prod.splits option.splits)
qed

lemma message_view_users: "users (fst (snd (snd (message_view ext i u s st)))) = users st"
proof (cases "chat_id s")
  case None
  then show ?thesis by (simp add: message_view_def)
next
  case (Some cur)
  show ?thesis
  proof (cases cur)
    case None
    with Some show ?thesis by (simp add: message_view_def)
  next
    case inner: (Some c)
    have "users (fst (snd (snd (then_run (None, s, st, show_history u st c)
            (\<lambda>s1 st1. case chat_input i of None \<Rightarrow> (None, s1, st1, [])
               | Some x \<Rightarrow> if x \<noteq> [] then handle_input ext u c (get_langchain_messages st c) x s1 st1
                           else (None, s1, st1, [])))))) = users st"
      by (rule then_run_users) (simp_all add: handle_input_users split: option.splits)
    with Some inner show ?thesis by (simp add: message_view_def)
  qed
qed

lemma authenticated_view_users:
  "users (fst (snd (snd (authenticated_view ext i s st)))) = users st"
proof (cases "authenticated s = Some True")
  case False
  then show ?thesis by (simp add: authenticated_view_def)
next
  case auth: True
  show ?thesis
  proof (cases "username s")
    case None
    with auth show ?thesis by (simp add: authenticated_view_def)
  next
    case (Some u)
    show ?thesis
    proof (cases "get_all_chat_ids_for_user st u = []")
      case True
      have "users (fst (snd (snd (then_run (None, s, st, [Call_get_all_chat_ids_for_user u])
              (\<lambda>s0 st0. auto_create_chat i u s0 st0))))) = users st"
        by (rule then_run_users) (simp_all add: auto_create_chat_users)
      with auth Some True show ?thesis by (simp add: authenticated_view_def)
    next
      case False
      show ?thesis
        unfolding authenticated_view_unfold[OF auth Some False]
        by (intro then_run_users)
           (simp_all add: save_name_users delete_selected_users new_chat_users logout_users
              use_selected_chat_users message_view_users)
    qed
  qed
qed

text \<open>
  Claim C10. A run calls \<^verbatim>\<open>create_user\<close> only in an anonymous session with the app up,
  the Register button pressed, equal password fields and no stored user of the chosen
  name. With mismatched passwords or a taken username no run changes the users of the
  store, and a run that reaches the register handler leaves the whole store unchanged and
  shows the matching error.
\<close>


theorem create_user_guarded:
  assumes "run ext i s st = (oc, s', st', tr)"
  shows "(\<forall>a b c d. Call_create_user a b c d \<in> set tr \<longrightarrow>
            authenticated s \<noteq> Some True \<and> \<not> app_down (app_status_env i)
          \<and> register_btn i \<and> new_password i = confirm_password i
          \<and> get_user_by_username st (new_username i) = None
          \<and> a = new_username i \<and> b = new_name i \<and> c = new_email i \<and> d = new_password i)
       \<and> (new_password i \<noteq> confirm_password i \<or> get_user_by_username st (new_username i) \<noteq> None
            \<longrightarrow> users st' = users st)
       \<and> (authenticated s \<noteq> Some True \<and> \<not> app_down (app_status_env i) \<and> register_btn i
            \<and> oc = Completed \<and> new_password i \<noteq> confirm_password i \<longrightarrow>
            st' = st \<and> St_error ''Passwords do not match.'' \<in> set tr)
       \<and> (authenticated s \<noteq> Some True \<and> \<not> app_down (app_status_env i) \<and> register_btn i
            \<and> oc = Completed \<and> new_password i = confirm_password i
            \<and> get_user_by_username st (new_username i) \<noteq> None \<longrightarrow>
            st' = st \<and> St_error ''Username already exists.'' \<in> set tr)"
proof (cases "app_down (app_status_env i)")
  case True
  with assms show ?thesis by (auto simp: run_down)
next
  case up: False
  show ?thesis
  proof (cases "authenticated s = Some True")
    case False
    from register_attempt_guarded[OF False up assms] False up show ?thesis by blast
  next
    case True
    from assms have res: "tr = snd (snd (snd (authenticated_view ext i s st)))"
        "st' = fst (snd (snd (authenticated_view ext i s st)))"
      by (auto simp: run_authenticated[OF up True] split: prod.splits option.splits)
    have "Call_create_user a b c d \<notin> set tr" for a b c d
      using authenticated_view_effects[of ext i s st] res(1) by auto
    moreover have "users st' = users st"
      using authenticated_view_users[of ext i s st] res(2) by simp
    ultimately show ?thesis using True by blast
  qed
qed

theorem create_user_guarded_witness:
  "register_btn i_register_taken
   \<and> new_password i_register_taken = confirm_password i_register_taken
   \<and> get_user_by_username st_alice (new_username i_register_taken) \<noteq> None
   \<and> snd (snd (run ext0 i_register_taken s_new st_alice))
       = (st_alice, [Call_get_user_by_username ''alice'', St_error ''Username already exists.''])"
proof -
  have a: "authenticated s_new \<noteq> Some True" by (simp add: s_new_def)
  have b: "\<not> app_down (app_status_env i_register_taken)" by code_simp
  have c: "register_btn i_register_taken" by code_simp
  have d: "new_password i_register_taken = confirm_password i_register_taken" by code_simp
  have e: "get_user_by_username st_alice (new_username i_register_taken) \<noteq> None" by code_simp
  have f: "snd (snd (snd (run ext0 i_register_taken s_new st_alice)))
     = [Call_get_user_by_username ''alice'', St_error ''Username already exists.'']" by code_simp
  obtain oc s' st' tr where r: "run ext0 i_register_taken s_new st_alice = (oc, s', st', tr)"
    by (cases "run ext0 i_register_taken s_new st_alice") auto
  have g: "fst (run ext0 i_register_taken s_new st_alice) = Completed" by code_simp
  from create_user_guarded[OF r] a b c d e f g show ?thesis by (simp add: r)
qed

text \<open>
  Claim C8. Every invocation of the reasoning loop, in any run, carries the configuration
  of lines 217 to 227: at most 3 iterations, at most 30 seconds, and the early stopping
  method \<^verbatim>\<open>force\<close>. What the external library does with these values is outside the
  model.
\<close>

theorem agent_bounds:
  assumes "run ext i s st = (oc, s', st', tr)" and "Call_agent cfg mem x \<in> set tr"
  shows "cfg = agent_executor \<and> max_iterations cfg = 3 \<and> max_execution_time cfg = 30
       \<and> early_stopping_method cfg = ''force''"
proof -
  from run_effects[OF assms] have "cfg = agent_executor" by simp
  then show ?thesis by (simp add: agent_executor_def)
qed

theorem agent_bounds_witness:
  "Call_agent agent_executor [HumanMessage ''m2'', AIMessage ''m3'', HumanMessage ''m4''] ''hi''
     \<in> set (snd (snd (snd (run ext0 i_chat s_alice st_chat))))
   \<and> max_iterations agent_executor = 3 \<and> max_execution_time agent_executor = 30
   \<and> early_stopping_method agent_executor = ''force''"
proof -
  have m: "Call_agent agent_executor [HumanMessage ''m2'', AIMessage ''m3'', HumanMessage ''m4'']
      ''hi'' \<in> set (snd (snd (snd (run ext0 i_chat s_alice st_chat))))" by code_simp
  obtain oc s' st' tr where r: "run ext0 i_chat s_alice st_chat = (oc, s', st', tr)"
    by (cases "run ext0 i_chat s_alice st_chat") auto
  from m r have "Call_agent agent_executor
      [HumanMessage ''m2'', AIMessage ''m3'', HumanMessage ''m4''] ''hi'' \<in> set tr" by simp
  from agent_bounds[OF r this] m show ?thesis by simp
qed

lemma find_cid_map:
  assumes "\<And>x. cid (f x) = cid x"
  shows "find (\<lambda>ch. cid ch = c) (map f xs) = map_option f (find (\<lambda>ch. cid ch = c) xs)"
  by (induction xs) (simp_all add: assms)

lemma find_snoc:
  "find P (xs @ [y]) = (case find P xs of None \<Rightarrow> (if P y then Some y else None) | Some x \<Rightarrow> Some x)"
  by (induction xs) simp_all

lemma find_chat_after_insert:
  "find_chat (snd (insert_message st u c r m)) c' =
     (case find_chat st c of
        None \<Rightarrow>
          (if c' = c
           then Some \<lparr>cid = c, owner_username = u, display_name = None, msgs = [(r, m)]\<rparr>
           else find_chat st c')
      | Some ch \<Rightarrow>
          if owner_username ch = u
          then map_option (\<lambda>x. if cid x = c then x\<lparr>msgs := msgs x @ [(r, m)]\<rparr> else x)
                 (find_chat st c')
          else find_chat st c')"
proof (cases "find_chat st c")
  case None
  then show ?thesis
    by (auto simp: insert_message_def find_chat_def find_snoc split: option.splits)
next
  case (Some ch)
  then show ?thesis
    by (simp add: insert_message_def find_chat_def find_cid_map)
qed




lemma find_chat_after_delete: "find_chat (snd (delete_chat st c)) c = None"
  by (auto simp: delete_chat_def find_chat_None)

lemma listed_chat_find:
  assumes "wf_store st" and "c \<in> fst ` set (get_all_chat_ids_for_user st u)"
  shows "\<exists>ch. find_chat st c = Some ch \<and> owner_username ch = u"
proof -
  from assms(2) have "find_chat st c \<noteq> None" by (rule listed_chat_found)
  then obtain ch where ch: "find_chat st c = Some ch" by auto
  then have "ch \<in> set (chats st)" "cid ch = c" by (auto dest: find_chat_Some)
  with assms(1) have "chat_id_of (owner_username ch) c" by (auto dest: wf_store_owner)
  moreover from assms have "chat_id_of u c" by (rule listed_chat_id_of)
  ultimately have "owner_username ch = u" by (rule chat_id_of_owner)
  with ch show ?thesis by simp
qed

lemma found_chat_listed:
  assumes "wf_store st" and "chat_id_of u c" and "find_chat st c = Some ch"
  shows "c \<in> fst ` set (get_all_chat_ids_for_user st u)"
proof -
  from assms(3) have in_st: "ch \<in> set (chats st)" "cid ch = c" by (auto dest: find_chat_Some)
  with assms(1) have "chat_id_of (owner_username ch) c" by (auto dest: wf_store_owner)
  with assms(2) have "owner_username ch = u" by (auto dest: chat_id_of_owner)
  with in_st show ?thesis by (force simp: get_all_chat_ids_for_user_def)
qed

lemma inserted_chat_listed:
  assumes "wf_store st" and "chat_id_of u c"
  shows "c \<in> fst ` set (get_all_chat_ids_for_user (snd (insert_message st u c r m)) u)"
proof -
  have wf': "wf_store (snd (insert_message st u c r m))"
    using assms by (rule insert_message_wf)
  have "find_chat (snd (insert_message st u c r m)) c \<noteq> None"
  proof (cases "find_chat st c")
    case None
    then show ?thesis by (simp add: find_chat_after_insert)
  next
    case (Some ch)
    then show ?thesis by (simp add: find_chat_after_insert)
  qed
  then obtain ch where "find_chat (snd (insert_message st u c r m)) c = Some ch" by auto
  with wf' assms(2) show ?thesis by (rule found_chat_listed)
qed

lemma run_trace_cases [consumes 1, case_names quiet_trace view]:
  assumes "run ext i s st = (oc, s', st', tr)"
  obtains (quiet_trace) "\<forall>e\<in>set tr. account_effect e" "chats st' = chats st"
  | (view) u where "\<not> app_down (app_status_env i)" "authenticated s = Some True"
      "username s = Some u"
proof (cases "app_down (app_status_env i)")
  case True
  with assms quiet_trace show ?thesis by (auto simp: run_down)
next
  case up: False
  show ?thesis
  proof (cases "authenticated s = Some True")
    case False
    from run_anonymous_facts[OF False up assms] quiet_trace show ?thesis by blast
  next
    case auth: True
    show ?thesis
    proof (cases "username s")
      case None
      with assms up auth quiet_trace show ?thesis by (auto simp: run_no_username)
    next
      case (Some u)
      with up auth view show ?thesis by blast
    qed
  qed
qed

lemma show_history_calls:
  "e \<in> set (show_history u st c) \<Longrightarrow>
     \<not> is_write_or_agent e \<and> (\<forall>c'. chat_of_call e = Some c' \<longrightarrow> c' = c)"
  by (auto simp: show_history_def)







lemma find_chat_insert_own:
  assumes "find_chat st c = Some ch" and "owner_username ch = u"
  shows "find_chat (snd (insert_message st u c r m)) c = Some (ch\<lparr>msgs := msgs ch @ [(r, m)]\<rparr>)"
  using assms find_chat_Some[OF assms(1)] by (simp add: find_chat_after_insert)

text \<open>The runs that show the message view.\<close>

lemma run_render [consumes 3, case_names render]:
  assumes "wf_store st" and "run ext i s st = (oc, s', st', tr)"
    and "Call_get_chat_history c n \<in> set tr"
  obtains u ch post where
    "authenticated s = Some True" "username s = Some u"
    "c = selected_of st u i" "c \<in> fst ` set (get_all_chat_ids_for_user st u)"
    "find_chat st c = Some ch" "owner_username ch = u"
    "chat_id s' = Some (Some c)" "n = 3 \<or> n = 10"
    "tr = Call_get_all_chat_ids_for_user u # show_history u st c @ post"
    "(post = [] \<and> st' = st \<and> oc = Completed)
     \<or> (\<exists>x. chat_input i = Some x \<and> x \<noteq> []
           \<and> reasoning_loop ext agent_executor (get_langchain_messages st c) x = None
           \<and> oc = Raised AgentError
           \<and> st' = snd (insert_message st u c ''user'' x)
           \<and> post = [St_chat_message ''user'' x, Call_insert_message u c ''user'' x,
                      Call_agent agent_executor (get_langchain_messages st c) x])
     \<or> (\<exists>x a. chat_input i = Some x \<and> x \<noteq> []
           \<and> reasoning_loop ext agent_executor (get_langchain_messages st c) x = Some a
           \<and> oc = Completed
           \<and> st' = snd (insert_message (snd (insert_message st u c ''user'' x)) u c ''assistant'' a)
           \<and> post = [St_chat_message ''user'' x, Call_insert_message u c ''user'' x,
                      Call_agent agent_executor (get_langchain_messages st c) x,
                      St_chat_message ''assistant'' a, Call_insert_message u c ''assistant'' a])"
using assms(2)
proof (cases rule: run_trace_cases)
  case quiet_trace
  from quiet_trace(1) assms(3) have "account_effect (Call_get_chat_history c n)" by blast
  then show ?thesis by simp
next
  case (view u)
  let ?c = "selected_of st u i"
  have hist: "Call_get_chat_history c n \<in> set (show_history u st ?c) \<Longrightarrow>
      c = ?c \<and> (n = 3 \<or> n = 10)"
    by (auto simp: show_history_def)
  have listed: "get_all_chat_ids_for_user st u \<noteq> [] \<Longrightarrow>
      ?c \<in> fst ` set (get_all_chat_ids_for_user st u)"
    by (rule selected_of_in_list)
  have found: "get_all_chat_ids_for_user st u \<noteq> [] \<Longrightarrow>
      \<exists>ch. find_chat st ?c = Some ch \<and> owner_username ch = u"
    using listed assms(1) by (simp add: listed_chat_find)
  from view assms(1,2) show ?thesis
  proof (cases rule: run_authenticated_cases)
    case auto_create
    with assms(3) show ?thesis by simp
  next
    case save_name
    with assms(3) show ?thesis by simp
  next
    case delete
    with assms(3) show ?thesis by simp
  next
    case new_chat
    with assms(3) show ?thesis by simp
  next
    case logout
    with assms(3) show ?thesis by simp
  next
    case switch
    with assms(3) show ?thesis by simp
  next
    case idle
    from idle(11) assms(3) have h: "c = ?c \<and> (n = 3 \<or> n = 10)" using hist by auto
    from found[OF idle(1)] obtain ch where ch: "find_chat st ?c = Some ch" "owner_username ch = u"
      by blast
    show ?thesis
      by (rule that[of u ch "[]"])
         (use h idle view ch listed in \<open>simp_all\<close>)
  next
    case (agent_raises x)
    from agent_raises(13) assms(3) have h: "c = ?c \<and> (n = 3 \<or> n = 10)" using hist by auto
    from found[OF agent_raises(1)] obtain ch
      where ch: "find_chat st ?c = Some ch" "owner_username ch = u" by blast
    show ?thesis
      by (rule that[of u ch "[St_chat_message ''user'' x, Call_insert_message u c ''user'' x,
              Call_agent agent_executor (get_langchain_messages st c) x]"])
         (use h agent_raises view ch listed in \<open>simp_all\<close>)
  next
    case (answer x a)
    from answer(13) assms(3) have h: "c = ?c \<and> (n = 3 \<or> n = 10)" using hist by auto
    from found[OF answer(1)] obtain ch
      where ch: "find_chat st ?c = Some ch" "owner_username ch = u" by blast
    show ?thesis
      by (rule that[of u ch "[St_chat_message ''user'' x, Call_insert_message u c ''user'' x,
              Call_agent agent_executor (get_langchain_messages st c) x,
              St_chat_message ''assistant'' a, Call_insert_message u c ''assistant'' a]"])
         (use h answer view ch listed in \<open>simp_all\<close>)
  qed
qed





lemma turn_renders:
  assumes "wf_store st" and "run ext i s st = (oc, s', st', tr)"
    and "Call_agent cfg mem x \<in> set tr \<or> Call_insert_message v c ''user'' x \<in> set tr"
  shows "\<exists>c'. Call_get_chat_history c' 3 \<in> set tr"
using assms(2)
proof (cases rule: run_trace_cases)
  case quiet_trace
  from quiet_trace(1) assms(3) have
    "account_effect (Call_agent cfg mem x) \<or> account_effect (Call_insert_message v c ''user'' x)"
    by blast
  then show ?thesis by simp
next
  case (view u)
  from view assms(1,2) show ?thesis
  proof (cases rule: run_authenticated_cases)
    case auto_create
    with assms(3) show ?thesis by simp
  next
    case save_name
    with assms(3) show ?thesis by simp
  next
    case delete
    with assms(3) show ?thesis by simp
  next
    case new_chat
    with assms(3) show ?thesis by simp
  next
    case logout
    with assms(3) show ?thesis by simp
  next
    case switch
    with assms(3) show ?thesis by simp
  next
    case idle
    then show ?thesis by (auto simp: show_history_def)
  next
    case (agent_raises x)
    then show ?thesis by (auto simp: show_history_def)
  next
    case (answer x a)
    then show ?thesis by (auto simp: show_history_def)
  qed
qed

text \<open>
  Claim C4. In every run that invokes the reasoning loop, the trace has the insert of the
  user message immediately before the invocation, with no insert and no invocation before
  it; the insert of the assistant message follows the invocation, only when the loop has
  returned an answer, and carries that answer. The chat in the store ends with the user
  message, followed by the answer when there is one. A user message is inserted only in
  such a run.
\<close>

theorem message_order:
  assumes "wf_store st" and "run ext i s st = (oc, s', st', tr)"
  shows "(\<forall>cfg mem x. Call_agent cfg mem x \<in> set tr \<longrightarrow>
           (\<exists>u c ch pre post.
              tr = pre @ [Call_insert_message u c ''user'' x, Call_agent cfg mem x] @ post
            \<and> (\<forall>e\<in>set pre. \<not> is_write_or_agent e)
            \<and> find_chat st c = Some ch \<and> owner_username ch = u
            \<and> (case reasoning_loop ext cfg mem x of
                 None \<Rightarrow> post = []
                   \<and> find_chat st' c = Some (ch\<lparr>msgs := msgs ch @ [(''user'', x)]\<rparr>)
               | Some a \<Rightarrow>
                   post = [St_chat_message ''assistant'' a, Call_insert_message u c ''assistant'' a]
                   \<and> find_chat st' c
                       = Some (ch\<lparr>msgs := msgs ch @ [(''user'', x), (''assistant'', a)]\<rparr>))))
       \<and> (\<forall>v c x. Call_insert_message v c ''user'' x \<in> set tr \<longrightarrow>
            (\<exists>cfg mem. Call_agent cfg mem x \<in> set tr))"
proof (intro conjI allI impI)
  fix cfg mem x assume ag: "Call_agent cfg mem x \<in> set tr"
  then obtain c where "Call_get_chat_history c 3 \<in> set tr"
    using turn_renders[OF assms, of cfg mem x] by blast
  with assms show "\<exists>u c ch pre post.
      tr = pre @ [Call_insert_message u c ''user'' x, Call_agent cfg mem x] @ post
    \<and> (\<forall>e\<in>set pre. \<not> is_write_or_agent e)
    \<and> find_chat st c = Some ch \<and> owner_username ch = u
    \<and> (case reasoning_loop ext cfg mem x of
         None \<Rightarrow> post = [] \<and> find_chat st' c = Some (ch\<lparr>msgs := msgs ch @ [(''user'', x)]\<rparr>)
       | Some a \<Rightarrow>
           post = [St_chat_message ''assistant'' a, Call_insert_message u c ''assistant'' a]
           \<and> find_chat st' c = Some (ch\<lparr>msgs := msgs ch @ [(''user'', x), (''assistant'', a)]\<rparr>))"
  proof (cases rule: run_render)
    case (render u ch post)
    let ?pre = "Call_get_all_chat_ids_for_user u # show_history u st c @ [St_chat_message ''user'' x]"
    have pre: "\<forall>e\<in>set ?pre. \<not> is_write_or_agent e"
      by (auto dest: show_history_calls)
    from ag render(9) have inpost: "Call_agent cfg mem x \<in> set post"
      by (auto dest: show_history_calls)
    have own1: "owner_username (ch\<lparr>msgs := msgs ch @ [(''user'', x)]\<rparr>) = u"
      using render(6) by simp
    note f1 = find_chat_insert_own[OF render(5,6), of "''user''" x]
    note f2 = find_chat_insert_own[OF f1 own1, of "''assistant''"]
    from render(10) show ?thesis
    proof (elim disjE conjE exE)
      assume "post = []"
      with inpost show ?thesis by simp
    next
      fix x0
      assume a: "reasoning_loop ext agent_executor (get_langchain_messages st c) x0 = None"
        "st' = snd (insert_message st u c ''user'' x0)"
        "post = [St_chat_message ''user'' x0, Call_insert_message u c ''user'' x0,
                 Call_agent agent_executor (get_langchain_messages st c) x0]"
      from inpost a(3) have eq: "agent_executor = cfg" "get_langchain_messages st c = mem" "x0 = x"
        by simp_all
      have tr: "tr = ?pre @ [Call_insert_message u c ''user'' x, Call_agent cfg mem x] @ []"
        using render(9) a(3) by (simp add: eq)
      have rl: "reasoning_loop ext cfg mem x = None" using a(1) by (simp add: eq)
      have fc: "find_chat st' c = Some (ch\<lparr>msgs := msgs ch @ [(''user'', x)]\<rparr>)"
        using f1 a(2) by (simp add: eq)
      have "tr = ?pre @ [Call_insert_message u c ''user'' x, Call_agent cfg mem x] @ []
          \<and> (\<forall>e\<in>set ?pre. \<not> is_write_or_agent e)
          \<and> find_chat st c = Some ch \<and> owner_username ch = u
          \<and> (case reasoning_loop ext cfg mem x of
               None \<Rightarrow> [] = [] \<and> find_chat st' c = Some (ch\<lparr>msgs := msgs ch @ [(''user'', x)]\<rparr>)
             | Some a \<Rightarrow>
                 [] = [St_chat_message ''assistant'' a, Call_insert_message u c ''assistant'' a]
                 \<and> find_chat st' c = Some (ch\<lparr>msgs := msgs ch @ [(''user'', x), (''assistant'', a)]\<rparr>))"
        using tr pre render(5,6) fc by (simp only: rl option.case)
      then show ?thesis by blast
    next
      fix x0 a
      assume a: "reasoning_loop ext agent_executor (get_langchain_messages st c) x0 = Some a"
        "st' = snd (insert_message (snd (insert_message st u c ''user'' x0)) u c ''assistant'' a)"
        "post = [St_chat_message ''user'' x0, Call_insert_message u c ''user'' x0,
                 Call_agent agent_executor (get_langchain_messages st c) x0,
                 St_chat_message ''assistant'' a, Call_insert_message u c ''assistant'' a]"
      from inpost a(3) have eq: "agent_executor = cfg" "get_langchain_messages st c = mem" "x0 = x"
        by simp_all
      let ?post = "[St_chat_message ''assistant'' a, Call_insert_message u c ''assistant'' a]"
      have tr: "tr = ?pre @ [Call_insert_message u c ''user'' x, Call_agent cfg mem x] @ ?post"
        using render(9) a(3) by (simp add: eq)
      have rl: "reasoning_loop ext cfg mem x = Some a" using a(1) by (simp add: eq)
      have fc: "find_chat st' c = Some (ch\<lparr>msgs := msgs ch @ [(''user'', x), (''assistant'', a)]\<rparr>)"
        using f2[of a] a(2) by (simp add: eq)
      have "tr = ?pre @ [Call_insert_message u c ''user'' x, Call_agent cfg mem x] @ ?post
          \<and> (\<forall>e\<in>set ?pre. \<not> is_write_or_agent e)
          \<and> find_chat st c = Some ch \<and> owner_username ch = u
          \<and> (case reasoning_loop ext cfg mem x of
               None \<Rightarrow> ?post = [] \<and> find_chat st' c = Some (ch\<lparr>msgs := msgs ch @ [(''user'', x)]\<rparr>)
             | Some a \<Rightarrow>
                 ?post = [St_chat_message ''assistant'' a, Call_insert_message u c ''assistant'' a]
                 \<and> find_chat st' c = Some (ch\<lparr>msgs := msgs ch @ [(''user'', x), (''assistant'', a)]\<rparr>))"
        using tr pre render(5,6) fc by (simp only: rl option.case)
      then show ?thesis by blast
    qed
  qed
next
  fix v c x assume ins: "Call_insert_message v c ''user'' x \<in> set tr"
  then obtain c' where "Call_get_chat_history c' 3 \<in> set tr"
    using turn_renders[OF assms, of _ _ x v c] by blast
  with assms show "\<exists>cfg mem. Call_agent cfg mem x \<in> set tr"
  proof (cases rule: run_render)
    case (render u ch post)
    from ins render(9) have inpost: "Call_insert_message v c ''user'' x \<in> set post"
      by (auto dest: show_history_calls)
    from render(10) have "\<exists>cfg mem. Call_agent cfg mem x \<in> set post"
    proof (elim disjE conjE exE)
      assume "post = []"
      with inpost show ?thesis by simp
    next
      fix x0
      assume a: "post = [St_chat_message ''user'' x0, Call_insert_message u c' ''user'' x0,
                 Call_agent agent_executor (get_langchain_messages st c') x0]"
      from inpost a have "x0 = x" by simp
      with a show ?thesis by auto
    next
      fix x0 a
      assume a: "post = [St_chat_message ''user'' x0, Call_insert_message u c' ''user'' x0,
                 Call_agent agent_executor (get_langchain_messages st c') x0,
                 St_chat_message ''assistant'' a, Call_insert_message u c' ''assistant'' a]"
      from inpost a have "x0 = x" by simp
      with a show ?thesis by auto
    qed
    with render(9) show ?thesis by auto
  qed
qed

theorem message_order_witness:
  "wf_store st_chat
   \<and> snd (snd (snd (run ext0 i_chat s_alice st_chat)))
      = Call_get_all_chat_ids_for_user ''alice'' # show_history ''alice'' st_chat ''alice_00000000''
        @ [St_chat_message ''user'' ''hi'',
           Call_insert_message ''alice'' ''alice_00000000'' ''user'' ''hi'',
           Call_agent agent_executor mem_alice ''hi'',
           St_chat_message ''assistant'' ''re: hi'',
           Call_insert_message ''alice'' ''alice_00000000'' ''assistant'' ''re: hi'']
   \<and> (\<exists>cfg mem. Call_agent cfg mem ''hi'' \<in> set (snd (snd (snd (run ext0 i_chat s_alice st_chat)))))"
proof -
  have w: "wf_store st_chat" by code_simp
  have t: "snd (snd (snd (run ext0 i_chat s_alice st_chat)))
      = Call_get_all_chat_ids_for_user ''alice'' # show_history ''alice'' st_chat ''alice_00000000''
        @ [St_chat_message ''user'' ''hi'',
           Call_insert_message ''alice'' ''alice_00000000'' ''user'' ''hi'',
           Call_agent agent_executor mem_alice ''hi'',
           St_chat_message ''assistant'' ''re: hi'',
           Call_insert_message ''alice'' ''alice_00000000'' ''assistant'' ''re: hi'']" by code_simp
  obtain oc s' st' tr where r: "run ext0 i_chat s_alice st_chat = (oc, s', st', tr)"
    by (cases "run ext0 i_chat s_alice st_chat") auto
  from t r have "Call_insert_message ''alice'' ''alice_00000000'' ''user'' ''hi'' \<in> set tr"
    by simp
  with message_order[OF w r] have "\<exists>cfg mem. Call_agent cfg mem ''hi'' \<in> set tr" by blast
  with w t r show ?thesis by simp
qed








text \<open>
  Claim C7. The delete handler deletes the selected chat, which is the active chat of the
  view it is pressed in. The run sets \<open>chat_id\<close> to \<^verbatim>\<open>None\<close>, removes the chat and
  ends in \<^verbatim>\<open>st.rerun()\<close> without showing the message view. The run started by that
  rerun does not show the message view either: it makes one of the user's remaining chats
  the active one, or creates a fresh chat when none remains, and reruns again. In every
  later run that shows the message view, the active chat is a chat of the session's user
  that exists in the store at that time.
\<close>

theorem delete_reselects:
  assumes "\<not> app_down (app_status_env i)" and "authenticated s = Some True"
    and "username s = Some u" and "wf_store st"
    and "get_all_chat_ids_for_user st u \<noteq> []" and "\<not> save_name_btn i" and "delete_btn i"
    and "run ext i s st = (oc, s1, st1, tr)"
  shows "oc = Rerun \<and> chat_id s1 = Some None \<and> find_chat st1 (selected_of st u i) = None
     \<and> (\<forall>c n. Call_get_chat_history c n \<notin> set tr)
     \<and> (\<forall>i2 oc2 s2 st2 tr2.
          \<not> app_down (app_status_env i2) \<and> no_click i2 \<and> run ext i2 s1 st1 = (oc2, s2, st2, tr2)
          \<longrightarrow> oc2 = Rerun \<and> (\<forall>c n. Call_get_chat_history c n \<notin> set tr2)
            \<and> (\<exists>c2. chat_id s2 = Some (Some c2)
                  \<and> c2 \<in> fst ` set (get_all_chat_ids_for_user st2 u)
                  \<and> (c2 = selected_of st1 u i2 \<and> st2 = st1 \<and> c2 \<noteq> selected_of st u i
                     \<or> get_all_chat_ids_for_user st1 u = [] \<and> c2 = fresh_chat_id u (uuid4 i2))))
     \<and> (\<forall>is i' oc' s' st' tr' c n.
          run ext i' (fst (runs ext is s1 st1)) (snd (runs ext is s1 st1)) = (oc', s', st', tr')
          \<and> Call_get_chat_history c n \<in> set tr'
          \<longrightarrow> chat_id s' = Some (Some c)
            \<and> (\<exists>v. username (fst (runs ext is s1 st1)) = Some v
                  \<and> c \<in> fst ` set (get_all_chat_ids_for_user (snd (runs ext is s1 st1)) v)))"
proof -
  let ?c = "selected_of st u i"
  from assms(1-4,8) have "oc = Rerun \<and> s1 = s\<lparr>chat_id := Some None\<rparr>
      \<and> st1 = snd (delete_chat st ?c)
      \<and> tr = [Call_get_all_chat_ids_for_user u, Call_delete_chat ?c, St_success ''Chat deleted.'']"
  proof (cases rule: run_authenticated_cases)
    case auto_create
    with assms(5) show ?thesis by simp
  next
    case save_name
    with assms(6) show ?thesis by simp
  next
    case delete
    then show ?thesis by simp
  next
    case new_chat
    with assms(7) show ?thesis by simp
  next
    case logout
    with assms(7) show ?thesis by simp
  next
    case switch
    with assms(7) show ?thesis by simp
  next
    case idle
    with assms(7) show ?thesis by simp
  next
    case (agent_raises x)
    with assms(7) show ?thesis by simp
  next
    case (answer x a)
    with assms(7) show ?thesis by simp
  qed
  then have d: "oc = Rerun" "s1 = s\<lparr>chat_id := Some None\<rparr>" "st1 = snd (delete_chat st ?c)"
      "tr = [Call_get_all_chat_ids_for_user u, Call_delete_chat ?c, St_success ''Chat deleted.'']"
    by simp_all
  have gone: "find_chat st1 ?c = None" unfolding d(3) by (rule find_chat_after_delete)
  have wf1: "wf_store st1" using assms(4,8) by (rule run_preserves_wf)
  have s1: "authenticated s1 = Some True" "username s1 = Some u" "chat_id s1 = Some None"
    using assms(2,3) d(2) by simp_all
  have nohist: "\<forall>c n. Call_get_chat_history c n \<notin> set tr" using d(4) by simp
  have next_run: "\<forall>i2 oc2 s2 st2 tr2.
          \<not> app_down (app_status_env i2) \<and> no_click i2 \<and> run ext i2 s1 st1 = (oc2, s2, st2, tr2)
          \<longrightarrow> oc2 = Rerun \<and> (\<forall>c n. Call_get_chat_history c n \<notin> set tr2)
            \<and> (\<exists>c2. chat_id s2 = Some (Some c2)
                  \<and> c2 \<in> fst ` set (get_all_chat_ids_for_user st2 u)
                  \<and> (c2 = selected_of st1 u i2 \<and> st2 = st1 \<and> c2 \<noteq> selected_of st u i
                     \<or> get_all_chat_ids_for_user st1 u = [] \<and> c2 = fresh_chat_id u (uuid4 i2)))"
  proof (intro allI impI, elim conjE)
    fix i2 oc2 s2 st2 tr2
    assume up2: "\<not> app_down (app_status_env i2)" and nc: "no_click i2"
      and r2: "run ext i2 s1 st1 = (oc2, s2, st2, tr2)"
    from nc have nc': "\<not> save_name_btn i2" "\<not> delete_btn i2" "\<not> new_chat_btn i2"
        "\<not> logout_btn i2" "chat_input i2 = None"
      by (simp_all add: no_click_def)
    from up2 s1(1,2) wf1 r2
    show "oc2 = Rerun \<and> (\<forall>c n. Call_get_chat_history c n \<notin> set tr2)
            \<and> (\<exists>c2. chat_id s2 = Some (Some c2)
                  \<and> c2 \<in> fst ` set (get_all_chat_ids_for_user st2 u)
                  \<and> (c2 = selected_of st1 u i2 \<and> st2 = st1 \<and> c2 \<noteq> selected_of st u i
                     \<or> get_all_chat_ids_for_user st1 u = [] \<and> c2 = fresh_chat_id u (uuid4 i2)))"
    proof (cases rule: run_authenticated_cases)
      case auto_create
      have "fresh_chat_id u (uuid4 i2) \<in> fst ` set (get_all_chat_ids_for_user st2 u)"
        unfolding auto_create(4) by (rule inserted_chat_listed[OF wf1 fresh_chat_id_of])
      with auto_create show ?thesis by simp
    next
      case save_name
      with nc' show ?thesis by simp
    next
      case delete
      with nc' show ?thesis by simp
    next
      case new_chat
      with nc' show ?thesis by simp
    next
      case logout
      with nc' show ?thesis by simp
    next
      case switch
      have l: "selected_of st1 u i2 \<in> fst ` set (get_all_chat_ids_for_user st1 u)"
        using switch(1) by (rule selected_of_in_list)
      then have "find_chat st1 (selected_of st1 u i2) \<noteq> None" by (rule listed_chat_found)
      with gone have "selected_of st1 u i2 \<noteq> ?c" by auto
      with switch l show ?thesis by simp
    next
      case idle
      with s1(3) show ?thesis by simp
    next
      case (agent_raises x)
      with s1(3) show ?thesis by simp
    next
      case (answer x a)
      with s1(3) show ?thesis by simp
    qed
  qed
  have later: "\<forall>is i' oc' s' st' tr' c n.
          run ext i' (fst (runs ext is s1 st1)) (snd (runs ext is s1 st1)) = (oc', s', st', tr')
          \<and> Call_get_chat_history c n \<in> set tr'
          \<longrightarrow> chat_id s' = Some (Some c)
            \<and> (\<exists>v. username (fst (runs ext is s1 st1)) = Some v
                  \<and> c \<in> fst ` set (get_all_chat_ids_for_user (snd (runs ext is s1 st1)) v))"
  proof (intro allI impI, elim conjE)
    fix "is" i' oc' s' st' tr' c n
    assume r: "run ext i' (fst (runs ext is s1 st1)) (snd (runs ext is s1 st1)) = (oc', s', st', tr')"
      and h: "Call_get_chat_history c n \<in> set tr'"
    have "wf_store (snd (runs ext is s1 st1))" using wf1 by (rule runs_preserve_wf)
    from this r h show "chat_id s' = Some (Some c)
            \<and> (\<exists>v. username (fst (runs ext is s1 st1)) = Some v
                  \<and> c \<in> fst ` set (get_all_chat_ids_for_user (snd (runs ext is s1 st1)) v))"
    proof (cases rule: run_render)
      case (render v ch post)
      then show ?thesis by blast
    qed
  qed
  from d(1) s1(3) gone nohist next_run later show ?thesis by (intro conjI) assumption+
qed

theorem delete_reselects_witness:
  "delete_btn i_delete \<and> wf_store st_two \<and> no_click quiet
   \<and> selected_of st_two ''alice'' i_delete = ''alice_00000000''
   \<and> run ext0 i_delete s_alice st_two
        = (Rerun, s_cleared, st_one,
           [Call_get_all_chat_ids_for_user ''alice'', Call_delete_chat ''alice_00000000'',
            St_success ''Chat deleted.''])
   \<and> fst (run ext0 quiet s_cleared st_one) = Rerun
   \<and> chat_id (fst (snd (run ext0 quiet s_cleared st_one))) = Some (Some ''alice_0000000b'')"
proof -
  have a: "\<not> app_down (app_status_env i_delete)" by code_simp
  have b: "authenticated s_alice = Some True" "username s_alice = Some ''alice''"
    by (simp_all add: s_alice_def)
  have w: "wf_store st_two" by code_simp
  have l: "get_all_chat_ids_for_user st_two ''alice'' \<noteq> []" by code_simp
  have ns: "\<not> save_name_btn i_delete" by code_simp
  have d: "delete_btn i_delete" by code_simp
  have sel: "selected_of st_two ''alice'' i_delete = ''alice_00000000''" by code_simp
  have r: "run ext0 i_delete s_alice st_two
        = (Rerun, s_cleared, st_one,
           [Call_get_all_chat_ids_for_user ''alice'', Call_delete_chat ''alice_00000000'',
            St_success ''Chat deleted.''])" by code_simp
  have a2: "\<not> app_down (app_status_env quiet)" by code_simp
  have nc: "no_click quiet" by code_simp
  have c2: "chat_id (fst (snd (run ext0 quiet s_cleared st_one)))
      = Some (Some ''alice_0000000b'')" by code_simp
  obtain oc2 s2 st2 tr2 where r2: "run ext0 quiet s_cleared st_one = (oc2, s2, st2, tr2)"
    by (cases "run ext0 quiet s_cleared st_one") auto
  note after = delete_reselects[OF a b w l ns d r, THEN conjunct2, THEN conjunct2,
      THEN conjunct2, THEN conjunct2, THEN conjunct1, rule_format, of quiet oc2 s2 st2 tr2]
  from after[OF conjI[OF a2 conjI[OF nc r2]]] have "oc2 = Rerun" by (rule conjunct1)
  then have f: "fst (run ext0 quiet s_cleared st_one) = Rerun" by (simp add: r2)
  from d w nc sel r f c2 show ?thesis by (intro conjI)
qed

end
